theory Spec2Isabelle
  imports Complex_Main
begin

section \<open>Barnes-Hut t-SNE: shallow embedding\<close>

text \<open>
  The embedding follows the TypeScript source of the t-SNE engine function by function.
  A JavaScript \<open>number\<close> that holds a floating-point quantity is modelled as a
  mathematical \<open>real\<close>: rounding, overflow to infinity and NaN values are outside the
  model. Where the source would produce NaN from reading past the end of an array, the
  model returns the fault \<open>NotANumber\<close> instead of a value; where the source throws, the
  model returns the fault \<open>Thrown\<close>. Array indices and counters are natural numbers.
  Rounding is modelled in one place only: the subsection on the optimizer step in double
  precision repeats the two loop nests of \<open>step\<close> with IEEE 754 rounding.
\<close>

subsection \<open>Faults\<close>

datatype fault = Thrown string | NotANumber

subsection \<open>Constants\<close>

definition THETA :: real where
  "THETA = 8 / 10"

definition MIN_POSSIBLE_PROB :: real where
  "MIN_POSSIBLE_PROB = 1 / 10 ^ 9"

subsection \<open>Distance kernels\<close>

text \<open>\<open>dist2\<close>: the length check, then the loop \<open>result += diff * diff\<close> over the indices.\<close>

fun dist2_loop :: "real list \<Rightarrow> real list \<Rightarrow> real \<Rightarrow> real" where
  "dist2_loop (x # xs) (y # ys) result = (let diff = x - y in dist2_loop xs ys (result + diff * diff))"
| "dist2_loop _ _ result = result"

definition dist2 :: "real list \<Rightarrow> real list \<Rightarrow> fault + real" where
  "dist2 a b =
     (if length a \<noteq> length b then Inl (Thrown ''Vectors a and b must be of same length'')
      else Inr (dist2_loop a b 0))"

text \<open>
  \<open>dist2_2D\<close> and \<open>dist2_3D\<close> read the fixed indices 0, 1 (and 2) and check nothing.
  A read past the end of a JavaScript array gives \<open>undefined\<close>, and the arithmetic on it
  gives NaN; no exception is raised.
\<close>

definition dist2_2D :: "real list \<Rightarrow> real list \<Rightarrow> fault + real" where
  "dist2_2D a b =
     (if length a < 2 \<or> length b < 2 then Inl NotANumber
      else (let dX = a ! 0 - b ! 0; dY = a ! 1 - b ! 1 in Inr (dX * dX + dY * dY)))"

definition dist2_3D :: "real list \<Rightarrow> real list \<Rightarrow> fault + real" where
  "dist2_3D a b =
     (if length a < 3 \<or> length b < 3 then Inl NotANumber
      else (let dX = a ! 0 - b ! 0; dY = a ! 1 - b ! 1; dZ = a ! 2 - b ! 2
            in Inr (dX * dX + dY * dY + dZ * dZ)))"


subsection \<open>The perplexity calibrator \<open>nearest2P\<close>\<close>

text \<open>\<open>zeros\<close>: a \<open>Float64Array\<close> of \<open>n\<close> zeros.\<close>

definition zeros :: "nat \<Rightarrow> real list" where
  "zeros n = replicate n 0"

record neighbor =
  index :: nat
  dist :: real

text \<open>
  An assignment \<open>x[k] = v\<close> to a JavaScript array: inside the array it overwrites, at
  \<open>k = x.length\<close> it appends. (The loops below never write further out.)
\<close>

definition array_set :: "real list \<Rightarrow> nat \<Rightarrow> real \<Rightarrow> real list" where
  "array_set x k v = (if k < length x then x[k := v] else x @ [v])"

text \<open>The body of the first inner loop: the raw kernel value of one neighbor.\<close>

definition raw_pij :: "nat \<Rightarrow> real \<Rightarrow> neighbor \<Rightarrow> real" where
  "raw_pij i beta neighbor =
     (let pij = (if i = index neighbor then 0 else exp (- dist neighbor * beta))
      in max pij MIN_POSSIBLE_PROB)"

text \<open>
  First inner loop of a trial, \<open>for (k = 0; k < neighbors.length; ++k)\<close>: the arguments are
  the neighbors from position \<open>k\<close> on, \<open>k\<close>, the shared array \<open>pRow\<close> and \<open>psum\<close>.
\<close>

fun kernel_row :: "nat \<Rightarrow> real \<Rightarrow> neighbor list \<Rightarrow> nat \<Rightarrow> real list \<Rightarrow> real \<Rightarrow> real list \<times> real" where
  "kernel_row i beta [] k pRow psum = (pRow, psum)"
| "kernel_row i beta (neighbor # rest) k pRow psum =
     (let pij = raw_pij i beta neighbor
      in kernel_row i beta rest (Suc k) (array_set pRow k pij) (psum + pij))"

text \<open>
  Second inner loop of a trial, \<open>for (k = 0; k < pRow.length; ++k)\<close>: normalise every entry
  of \<open>pRow\<close> and accumulate the entropy \<open>Hhere\<close>. (A division by \<open>psum = 0\<close> can only happen
  when the row of neighbors is empty and \<open>pRow\<close> is not; that run ends in the TypeError of
  \<open>copy_row\<close>.)
\<close>

fun normalize_row :: "real \<Rightarrow> real list \<Rightarrow> real \<Rightarrow> real list \<times> real" where
  "normalize_row psum [] Hhere = ([], Hhere)"
| "normalize_row psum (p # rest) Hhere =
     (let pij = p / psum;
          Hhere' = (if pij > 1 / 10 ^ 7 then Hhere - pij * ln pij else Hhere);
          (rest', Hfinal) = normalize_row psum rest Hhere'
      in (pij # rest', Hfinal))"

definition maxTries :: nat where
  "maxTries = 50"

text \<open>
  One trial of the binary search: the two inner loops, then the adjustment of \<open>beta\<close>. The
  bounds \<open>betaMin\<close> and \<open>betaMax\<close> are \<open>None\<close> while they are still \<open>-Infinity\<close> and
  \<open>Infinity\<close>.
\<close>

definition trial_row :: "nat \<Rightarrow> neighbor list \<Rightarrow> real \<Rightarrow> real list \<Rightarrow> real list \<times> real" where
  "trial_row i neighbors beta pRow =
     (let (pRow1, psum) = kernel_row i beta neighbors 0 pRow 0
      in normalize_row psum pRow1 0)"

definition adjust_beta ::
  "real \<Rightarrow> real \<Rightarrow> real option \<Rightarrow> real option \<Rightarrow> real \<Rightarrow> real option \<times> real option \<times> real" where
  "adjust_beta Hhere Htarget betaMin betaMax beta =
     (if Hhere > Htarget
      then (Some beta, betaMax, (case betaMax of None \<Rightarrow> beta * 2 | Some bmax \<Rightarrow> (beta + bmax) / 2))
      else (betaMin, Some beta, (case betaMin of None \<Rightarrow> beta / 2 | Some bmin \<Rightarrow> (beta + bmin) / 2)))"

text \<open>The \<open>while (true)\<close> loop; it leaves through \<open>break\<close> after at most \<open>maxTries\<close> trials.\<close>

function search_beta ::
  "nat \<Rightarrow> neighbor list \<Rightarrow> real \<Rightarrow> real \<Rightarrow> real option \<Rightarrow> real option \<Rightarrow> real \<Rightarrow> nat \<Rightarrow> real list \<Rightarrow> real list" where
  "search_beta i neighbors Htarget tol betaMin betaMax beta numTries pRow =
     (let (pRow', Hhere) = trial_row i neighbors beta pRow;
          (betaMin', betaMax', beta') = adjust_beta Hhere Htarget betaMin betaMax beta;
          numTries' = numTries + 1
      in if numTries' \<ge> maxTries \<or> \<bar>Hhere - Htarget\<bar> < tol then pRow'
         else search_beta i neighbors Htarget tol betaMin' betaMax' beta' numTries' pRow')"
  by pat_completeness auto
termination
  by (relation "measure (\<lambda>(i, neighbors, Htarget, tol, betaMin, betaMax, beta, numTries, pRow). maxTries - numTries)")
     auto

declare search_beta.simps [simp del]

text \<open>
  The copy of the final row into \<open>P\<close>, \<open>for (k = 0; k < pRow.length; ++k)\<close>. Reading
  \<open>neighbors[k].index\<close> past the end of \<open>neighbors\<close> throws a TypeError. A write to the
  \<open>Float64Array\<close> outside its bounds is ignored, as \<open>list_update\<close> does.
\<close>

fun copy_row :: "nat \<Rightarrow> nat \<Rightarrow> real list \<Rightarrow> neighbor list \<Rightarrow> real list \<Rightarrow> fault + real list" where
  "copy_row i N [] neighbors P = Inr P"
| "copy_row i N (pij # pRest) [] P = Inl (Thrown ''TypeError'')"
| "copy_row i N (pij # pRest) (neighbor # rest) P =
     copy_row i N pRest rest (P[i * N + index neighbor := pij])"

text \<open>The loop over the examples \<open>i\<close>; \<open>pRow\<close> and \<open>P\<close> are carried from row to row.\<close>

fun calibrate_rows ::
  "nat \<Rightarrow> real \<Rightarrow> real \<Rightarrow> neighbor list list \<Rightarrow> nat \<Rightarrow> real list \<Rightarrow> real list \<Rightarrow> fault + real list" where
  "calibrate_rows N Htarget tol [] i pRow P = Inr P"
| "calibrate_rows N Htarget tol (neighbors # rest) i pRow P =
     (let pRow' = search_beta i neighbors Htarget tol None None 1 0 pRow
      in case copy_row i N pRow' neighbors P of
           Inl e \<Rightarrow> Inl e
         | Inr P' \<Rightarrow> calibrate_rows N Htarget tol rest (Suc i) pRow' P')"

text \<open>
  The matrix before the symmetrisation. \<open>nearest[0].length\<close> throws a TypeError when
  \<open>nearest\<close> is empty. The holes of \<open>new Array(K)\<close> are written before they are read in
  every run that does not throw, so their initial content is irrelevant.
\<close>

definition calibrate :: "neighbor list list \<Rightarrow> real \<Rightarrow> real \<Rightarrow> fault + real list" where
  "calibrate nearest perplexity tol =
     (case nearest of
        [] \<Rightarrow> Inl (Thrown ''TypeError'')
      | row0 # _ \<Rightarrow>
          (let N = length nearest;
               Htarget = ln perplexity;
               P = zeros (N * N);
               K = length row0;
               pRow = replicate K 0
           in calibrate_rows N Htarget tol nearest 0 pRow P))"

text \<open>The symmetrisation loops.\<close>

definition symmetrize_cell :: "nat \<Rightarrow> nat \<Rightarrow> nat \<Rightarrow> real list \<Rightarrow> real list" where
  "symmetrize_cell N i j P =
     (let N2 = N * 2;
          i_j = i * N + j;
          j_i = j * N + i;
          value = (P ! i_j + P ! j_i) / real N2
      in (P[i_j := value])[j_i := value])"

definition symmetrize :: "nat \<Rightarrow> real list \<Rightarrow> real list" where
  "symmetrize N P = fold (\<lambda>i. fold (symmetrize_cell N i) [i + 1 ..< N]) [0 ..< N] P"

definition nearest2P :: "neighbor list list \<Rightarrow> real \<Rightarrow> real \<Rightarrow> fault + real list" where
  "nearest2P nearest perplexity tol =
     (case calibrate nearest perplexity tol of
        Inl e \<Rightarrow> Inl e
      | Inr P \<Rightarrow> Inr (symmetrize (length nearest) P))"


subsection \<open>The Gaussian sampler\<close>

text \<open>
  \<open>return_v\<close> and \<open>v_val\<close> are module-level variables: one cache for all engines. A random
  number generator \<open>rng\<close> is modelled by the sequence of the numbers it returns; the position
  in the sequence is the number of calls made so far. \<open>gaussRandom\<close> calls itself again when
  the pair is rejected, so it may not return: the result is an \<open>option\<close>.
\<close>

record gauss_cache =
  return_v :: bool
  v_val :: real

partial_function (option) gaussRandom ::
  "(nat \<Rightarrow> real) \<Rightarrow> gauss_cache \<Rightarrow> nat \<Rightarrow> (real \<times> gauss_cache \<times> nat) option" where
  "gaussRandom rng g pos =
     (if return_v g then Some (v_val g, g\<lparr>return_v := False\<rparr>, pos)
      else (let u = 2 * rng pos - 1;
                v = 2 * rng (pos + 1) - 1;
                r = u * u + v * v
            in if r = 0 \<or> r > 1 then gaussRandom rng g (pos + 2)
               else (let c = sqrt (- 2 * ln r / r)
                     in Some (u * c, g\<lparr>v_val := v * c, return_v := True\<rparr>, pos + 2))))"

definition randn ::
  "(nat \<Rightarrow> real) \<Rightarrow> real \<Rightarrow> real \<Rightarrow> gauss_cache \<Rightarrow> nat \<Rightarrow> (real \<times> gauss_cache \<times> nat) option" where
  "randn rng mu std g pos =
     (case gaussRandom rng g pos of
        None \<Rightarrow> None
      | Some (x, g', pos') \<Rightarrow> Some (mu + x * std, g', pos'))"

function randnMatrix_loop ::
  "(nat \<Rightarrow> real) \<Rightarrow> nat \<Rightarrow> nat \<Rightarrow> real list \<Rightarrow> gauss_cache \<Rightarrow> nat \<Rightarrow> (real list \<times> gauss_cache \<times> nat) option" where
  "randnMatrix_loop rng nd i x g pos =
     (if i < nd
      then (case randn rng 0 (1 / 10 ^ 4) g pos of
              None \<Rightarrow> None
            | Some (v, g', pos') \<Rightarrow> randnMatrix_loop rng nd (Suc i) (x[i := v]) g' pos')
      else Some (x, g, pos))"
  by pat_completeness auto
termination
  by (relation "measure (\<lambda>(rng, nd, i, x, g, pos). nd - i)") auto

declare randnMatrix_loop.simps [simp del]

definition randnMatrix ::
  "nat \<Rightarrow> nat \<Rightarrow> (nat \<Rightarrow> real) \<Rightarrow> gauss_cache \<Rightarrow> nat \<Rightarrow> (real list \<times> gauss_cache \<times> nat) option" where
  "randnMatrix n d rng g pos = (let nd = n * d; x = zeros nd in randnMatrix_loop rng nd 0 x g pos)"

definition arrayofs :: "nat \<Rightarrow> nat \<Rightarrow> real \<Rightarrow> real list list" where
  "arrayofs n d val = replicate n (if d = 3 then [val, val, val] else [val, val])"

subsection \<open>Helpers of the optimizer\<close>

definition sign :: "real \<Rightarrow> int" where
  "sign x = (if x > 0 then 1 else if x < 0 then - 1 else 0)"

text \<open>
  \<open>computeForce_2d\<close> and \<open>computeForce_3d\<close> add to \<open>force\<close> in place; the model returns the
  new array. Like the distance kernels they check nothing, and a read past the end of an
  array puts NaN into \<open>force\<close>.
\<close>

definition computeForce_2d :: "real list \<Rightarrow> real \<Rightarrow> real list \<Rightarrow> real list \<Rightarrow> fault + real list" where
  "computeForce_2d force mult pointA pointB =
     (if length force < 2 \<or> length pointA < 2 \<or> length pointB < 2 then Inl NotANumber
      else (let force1 = force[0 := force ! 0 + mult * (pointA ! 0 - pointB ! 0)]
            in Inr (force1[1 := force1 ! 1 + mult * (pointA ! 1 - pointB ! 1)])))"

definition computeForce_3d :: "real list \<Rightarrow> real \<Rightarrow> real list \<Rightarrow> real list \<Rightarrow> fault + real list" where
  "computeForce_3d force mult pointA pointB =
     (if length force < 3 \<or> length pointA < 3 \<or> length pointB < 3 then Inl NotANumber
      else (let force1 = force[0 := force ! 0 + mult * (pointA ! 0 - pointB ! 0)];
                force2 = force1[1 := force1 ! 1 + mult * (pointA ! 1 - pointB ! 1)]
            in Inr (force2[2 := force2 ! 2 + mult * (pointA ! 2 - pointB ! 2)])))"

subsection \<open>The engine\<close>

record TSNEOptions =
  opt_dim :: nat
  opt_perplexity :: "real option"
  opt_epsilon :: "real option"
  opt_rng :: "(nat \<Rightarrow> real) option"

text \<open>
  The fields of the class \<open>TSNE\<close>. \<open>rng_calls\<close> is the position of the engine's generator
  in its sequence. \<open>emb_Y\<close>, \<open>num_N\<close> and \<open>mat_P\<close> are the fields \<open>Y\<close>, \<open>N\<close> and \<open>P\<close>;
  \<open>bound_dist2\<close> and \<open>bound_computeForce\<close> are the fields \<open>dist2\<close> and \<open>computeForce\<close>.
\<close>

record TSNE =
  perplexity :: real
  epsilon :: real
  rng :: "nat \<Rightarrow> real"
  rng_calls :: nat
  iter :: nat
  emb_Y :: "real list"
  num_N :: nat
  mat_P :: "real list"
  gains :: "real list list"
  ystep :: "real list list"
  nearest :: "neighbor list list"
  dim :: nat
  bound_dist2 :: "real list \<Rightarrow> real list \<Rightarrow> fault + real"
  bound_computeForce :: "real list \<Rightarrow> real \<Rightarrow> real list \<Rightarrow> real list \<Rightarrow> fault + real list"

text \<open>\<open>x || dflt\<close> on an optional number: the default replaces both \<open>undefined\<close> and 0.\<close>

definition or_default :: "real option \<Rightarrow> real \<Rightarrow> real" where
  "or_default x dflt = (case x of None \<Rightarrow> dflt | Some v \<Rightarrow> if v = 0 then dflt else v)"

text \<open>
  The constructor. \<open>Math_random\<close> is the sequence of the platform's generator, used when the
  options give none. The fields that only \<open>initDataDist\<close> assigns start empty here; calling
  \<open>step\<close> on an engine that was never initialised is outside the model.
\<close>

definition TSNE_constructor :: "(nat \<Rightarrow> real) \<Rightarrow> TSNEOptions option \<Rightarrow> fault + TSNE" where
  "TSNE_constructor Math_random opt0 =
     (let opt = (case opt0 of
                   None \<Rightarrow> \<lparr>opt_dim = 2, opt_perplexity = None, opt_epsilon = None, opt_rng = None\<rparr>
                 | Some o' \<Rightarrow> o');
          this = \<lparr>perplexity = or_default (opt_perplexity opt) 30,
                  epsilon = or_default (opt_epsilon opt) 10,
                  rng = (case opt_rng opt of None \<Rightarrow> Math_random | Some r \<Rightarrow> r),
                  rng_calls = 0, iter = 0, emb_Y = [], num_N = 0, mat_P = [],
                  gains = [], ystep = [], nearest = [],
                  dim = opt_dim opt,
                  bound_dist2 = dist2_2D, bound_computeForce = computeForce_2d\<rparr>
      in if opt_dim opt = 2
         then Inr (this\<lparr>bound_dist2 := dist2_2D, bound_computeForce := computeForce_2d\<rparr>)
         else if opt_dim opt = 3
         then Inr (this\<lparr>bound_dist2 := dist2_3D, bound_computeForce := computeForce_3d\<rparr>)
         else Inl (Thrown ''Only 2D and 3D is supported''))"

text \<open>
  \<open>initSolution\<close> and \<open>initDataDist\<close> change the engine and the module-level cache; they
  return both, or \<open>None\<close> when the sampler does not return.
\<close>

definition initSolution :: "gauss_cache \<Rightarrow> TSNE \<Rightarrow> (gauss_cache \<times> TSNE) option" where
  "initSolution g this =
     (case randnMatrix (num_N this) (dim this) (rng this) g (rng_calls this) of
        None \<Rightarrow> None
      | Some (y, g', pos') \<Rightarrow>
          Some (g', this\<lparr>emb_Y := y, rng_calls := pos',
                         gains := arrayofs (num_N this) (dim this) 1,
                         ystep := arrayofs (num_N this) (dim this) 0,
                         iter := 0\<rparr>))"

definition initDataDist :: "gauss_cache \<Rightarrow> TSNE \<Rightarrow> neighbor list list \<Rightarrow> (fault + gauss_cache \<times> TSNE) option" where
  "initDataDist g this nearest' =
     (let N = length nearest'
      in case nearest2P nearest' (perplexity this) (1 / 10 ^ 4) of
           Inl e \<Rightarrow> Some (Inl e)
         | Inr P \<Rightarrow>
             (case initSolution g (this\<lparr>nearest := nearest', mat_P := P, num_N := N\<rparr>) of
                None \<Rightarrow> None
              | Some r \<Rightarrow> Some (Inr r)))"

definition getSolution :: "TSNE \<Rightarrow> real list" where
  "getSolution this = emb_Y this"


subsection \<open>The space-partitioning tree\<close>

text \<open>
  Modelled from the spec: the class \<open>SPTree\<close> and its node type \<open>SPNode\<close> (\<open>sptree.js\<close>,
  which the engine imports, is not among the sources). A node has its \<open>point\<close> and its
  \<open>children\<close> (\<open>None\<close> for \<open>null\<close>; a child slot is \<open>None\<close> for \<open>null\<close>), and the three
  fields that \<open>costGrad\<close> adds: \<open>numCells\<close>, \<open>yCell\<close>, \<open>rCell\<close>. The tree that
  \<open>new SPTree(points)\<close> builds is a parameter of \<open>costGrad\<close>; \<open>lowerBound\<close> and
  \<open>upperBound\<close> of a node are the bounds that \<open>visit\<close> hands to its callback at that node.
\<close>

datatype AugmSPNode =
  SPNode (point: "real list") (children: "AugmSPNode option list option")
         (lowerBound: "real list") (upperBound: "real list")
         (numCells: nat) (yCell: "real list") (rCell: real)

text \<open>The loop \<open>yCell[d] += result.yCell[d]\<close> for \<open>d < dim\<close>.\<close>

definition add_yCell :: "nat \<Rightarrow> real list \<Rightarrow> real list \<Rightarrow> fault + real list" where
  "add_yCell dim' yCell' result_yCell =
     (if length yCell' < dim' \<or> length result_yCell < dim' then Inl NotANumber
      else Inr (fold (\<lambda>d y. y[d := y ! d + result_yCell ! d]) [0 ..< dim'] yCell'))"

text \<open>
  \<open>annotateTree\<close> writes \<open>numCells\<close> and \<open>yCell\<close> into the node and returns the pair
  \<open>{numCells, yCell}\<close>; the model returns the annotated node with the pair.
  \<open>annotate_children\<close> is the loop over \<open>node.children\<close> with its two accumulators.
\<close>

fun annotateTree :: "nat \<Rightarrow> AugmSPNode \<Rightarrow> fault + (AugmSPNode \<times> nat \<times> real list)"
  and annotate_children ::
    "nat \<Rightarrow> AugmSPNode option list \<Rightarrow> nat \<Rightarrow> real list \<Rightarrow> fault + (AugmSPNode option list \<times> nat \<times> real list)" where
  "annotateTree dim' (SPNode pt None lo hi nc yc rc) =
     (let numCells' = 1 in Inr (SPNode pt None lo hi numCells' pt rc, numCells', pt))"
| "annotateTree dim' (SPNode pt (Some cs) lo hi nc yc rc) =
     (case annotate_children dim' cs 1 pt of
        Inl e \<Rightarrow> Inl e
      | Inr (cs', numCells', yCell') \<Rightarrow>
          Inr (SPNode pt (Some cs') lo hi numCells' (map (\<lambda>v. v / real numCells') yCell') rc,
               numCells', yCell'))"
| "annotate_children dim' [] numCells' yCell' = Inr ([], numCells', yCell')"
| "annotate_children dim' (None # rest) numCells' yCell' =
     (case annotate_children dim' rest numCells' yCell' of
        Inl e \<Rightarrow> Inl e
      | Inr (rest', n, y) \<Rightarrow> Inr (None # rest', n, y))"
| "annotate_children dim' (Some child # rest) numCells' yCell' =
     (case annotateTree dim' child of
        Inl e \<Rightarrow> Inl e
      | Inr (child', result_numCells, result_yCell) \<Rightarrow>
          (case add_yCell dim' yCell' result_yCell of
             Inl e \<Rightarrow> Inl e
           | Inr yCell'' \<Rightarrow>
               (case annotate_children dim' rest (numCells' + result_numCells) yCell'' of
                  Inl e \<Rightarrow> Inl e
                | Inr (rest', n, y) \<Rightarrow> Inr (Some child' # rest', n, y))))"

text \<open>
  Modelled from the spec: the traversal of \<open>visit\<close> (depth-first, into the non-null
  children), here with the callback of the first \<open>tree.visit\<close> of \<open>costGrad\<close>, which stores
  \<open>rCell = high[0] - low[0]\<close> and returns false, so that every node is visited.
\<close>

fun assign_rCell :: "AugmSPNode \<Rightarrow> fault + AugmSPNode"
  and assign_rCell_children :: "AugmSPNode option list \<Rightarrow> fault + AugmSPNode option list" where
  "assign_rCell (SPNode pt cs lo hi nc yc rc) =
     (if hi = [] \<or> lo = [] then Inl NotANumber
      else (let rc' = hi ! 0 - lo ! 0
            in case cs of
                 None \<Rightarrow> Inr (SPNode pt None lo hi nc yc rc')
               | Some l \<Rightarrow>
                   (case assign_rCell_children l of
                      Inl e \<Rightarrow> Inl e
                    | Inr l' \<Rightarrow> Inr (SPNode pt (Some l') lo hi nc yc rc'))))"
| "assign_rCell_children [] = Inr []"
| "assign_rCell_children (None # rest) =
     (case assign_rCell_children rest of Inl e \<Rightarrow> Inl e | Inr rest' \<Rightarrow> Inr (None # rest'))"
| "assign_rCell_children (Some child # rest) =
     (case assign_rCell child of
        Inl e \<Rightarrow> Inl e
      | Inr child' \<Rightarrow>
          (case assign_rCell_children rest of
             Inl e \<Rightarrow> Inl e
           | Inr rest' \<Rightarrow> Inr (Some child' # rest')))"

text \<open>
  Modelled from the spec: \<open>visit\<close>, the depth-first visitor. It calls the callback on a
  node and descends into the non-null children unless the node is a leaf or the callback
  returned true. The callback threads a state \<open>'s\<close>.
\<close>

fun visitNode :: "(AugmSPNode \<Rightarrow> 's \<Rightarrow> fault + ('s \<times> bool)) \<Rightarrow> AugmSPNode \<Rightarrow> 's \<Rightarrow> fault + 's"
  and visitChildren ::
    "(AugmSPNode \<Rightarrow> 's \<Rightarrow> fault + ('s \<times> bool)) \<Rightarrow> AugmSPNode option list \<Rightarrow> 's \<Rightarrow> fault + 's" where
  "visitNode accessor (SPNode pt cs lo hi nc yc rc) s =
     (case accessor (SPNode pt cs lo hi nc yc rc) s of
        Inl e \<Rightarrow> Inl e
      | Inr (s', skip) \<Rightarrow>
          (case cs of
             None \<Rightarrow> Inr s'
           | Some l \<Rightarrow> if skip then Inr s' else visitChildren accessor l s'))"
| "visitChildren accessor [] s = Inr s"
| "visitChildren accessor (None # rest) s = visitChildren accessor rest s"
| "visitChildren accessor (Some child # rest) s =
     (case visitNode accessor child s of
        Inl e \<Rightarrow> Inl e
      | Inr s' \<Rightarrow> visitChildren accessor rest s')"

subsection \<open>The gradient evaluator \<open>costGrad\<close>\<close>

text \<open>
  The rows \<open>points[i]\<close> read from the flat array \<open>Y\<close>. The engine passes its own \<open>Y\<close>,
  which has \<open>N * dim\<close> entries, so the reads are inside the array.
\<close>

definition make_points :: "nat \<Rightarrow> nat \<Rightarrow> real list \<Rightarrow> real list list" where
  "make_points N dim' Y = map (\<lambda>i. map (\<lambda>d. Y ! (i * dim' + d)) [0 ..< dim']) [0 ..< N]"

text \<open>
  The loop over the neighbors of point \<open>i\<close> (positive forces). \<open>points[j]\<close> is \<open>undefined\<close>
  for \<open>j\<close> outside the array, and the distance kernel then throws a TypeError; a read
  of \<open>P\<close> outside the array gives \<open>undefined\<close>, and \<open>premult\<close> is then NaN.
\<close>

fun attract :: "TSNE \<Rightarrow> real list list \<Rightarrow> nat \<Rightarrow> real list \<Rightarrow> neighbor list \<Rightarrow> real list \<Rightarrow> fault + real list" where
  "attract this points i pointI [] Fpos = Inr Fpos"
| "attract this points i pointI (neighbor # rest) Fpos =
     (let j = index neighbor
      in if j \<ge> length points then Inl (Thrown ''TypeError'')
         else if i * num_N this + j \<ge> length (mat_P this) then Inl NotANumber
         else (let pij = mat_P this ! (i * num_N this + j);
                   pointJ = points ! j
               in case bound_dist2 this pointI pointJ of
                    Inl e \<Rightarrow> Inl e
                  | Inr squaredDistItoJ \<Rightarrow>
                      (let premult = pij / (1 + squaredDistItoJ)
                       in case bound_computeForce this Fpos premult pointI pointJ of
                            Inl e \<Rightarrow> Inl e
                          | Inr Fpos' \<Rightarrow> attract this points i pointI rest Fpos')))"

text \<open>
  The callback of the second \<open>tree.visit\<close> (negative forces); its state is the pair of the
  normaliser \<open>Z\<close> and the force \<open>FnegZ\<close>.
\<close>

definition repulse :: "TSNE \<Rightarrow> real list \<Rightarrow> AugmSPNode \<Rightarrow> real \<times> real list \<Rightarrow> fault + ((real \<times> real list) \<times> bool)" where
  "repulse this pointI node s =
     (case s of (Z, FnegZ) \<Rightarrow>
      (case bound_dist2 this pointI (yCell node) of
         Inl e \<Rightarrow> Inl e
       | Inr squaredDistToCell \<Rightarrow>
           if children node = None \<or>
              (squaredDistToCell > 0 \<and> rCell node / sqrt squaredDistToCell < THETA)
           then (let qijZ = 1 / (1 + squaredDistToCell);
                     dZ = real (numCells node) * qijZ;
                     Z' = Z + dZ;
                     dZ' = dZ * qijZ
                 in case bound_computeForce this FnegZ dZ' pointI (yCell node) of
                      Inl e \<Rightarrow> Inl e
                    | Inr FnegZ' \<Rightarrow> Inr ((Z', FnegZ'), True))
           else (case bound_dist2 this pointI (point node) of
                   Inl e \<Rightarrow> Inl e
                 | Inr squaredDistToPoint \<Rightarrow>
                     (let qijZ = 1 / (1 + squaredDistToPoint);
                          Z' = Z + qijZ;
                          qijZ' = qijZ * qijZ
                      in case bound_computeForce this FnegZ qijZ' pointI (point node) of
                           Inl e \<Rightarrow> Inl e
                         | Inr FnegZ' \<Rightarrow> Inr ((Z', FnegZ'), False)))))"

text \<open>
  The loop over the points \<open>i\<close>: it fills \<open>forces\<close> and accumulates \<open>Z\<close>. Reading
  \<open>neighbors.length\<close> throws a TypeError when \<open>this.nearest[i]\<close> is \<open>undefined\<close>.
\<close>

fun force_loop ::
  "TSNE \<Rightarrow> real list list \<Rightarrow> AugmSPNode \<Rightarrow> nat list \<Rightarrow> real \<Rightarrow> (real list \<times> real list) list
   \<Rightarrow> fault + (real \<times> (real list \<times> real list) list)" where
  "force_loop this points tree_root [] Z forces = Inr (Z, forces)"
| "force_loop this points tree_root (i # rest) Z forces =
     (let pointI = points ! i;
          Fpos = (if dim this = 3 then [0, 0, 0] else [0, 0])
      in if i \<ge> length (nearest this) then Inl (Thrown ''TypeError'')
         else (let neighbors = nearest this ! i
               in case attract this points i pointI neighbors Fpos of
                    Inl e \<Rightarrow> Inl e
                  | Inr Fpos' \<Rightarrow>
                      (let FnegZ = (if dim this = 3 then [0, 0, 0] else [0, 0])
                       in case visitNode (repulse this pointI) tree_root (Z, FnegZ) of
                            Inl e \<Rightarrow> Inl e
                          | Inr (Z', FnegZ') \<Rightarrow>
                              force_loop this points tree_root rest Z' (forces @ [(Fpos', FnegZ')]))))"

text \<open>
  \<open>costGradA\<close> is the body of \<open>costGrad\<close> after its first three statements, with the
  multiplier \<open>alpha\<close> as an argument.
\<close>

definition costGradA ::
  "(real list list \<Rightarrow> AugmSPNode) \<Rightarrow> real \<Rightarrow> TSNE \<Rightarrow> real list \<Rightarrow> fault + real list list" where
  "costGradA SPTree alpha this Y =
     (let N = num_N this;
          points = make_points N (dim this) Y;
          tree_root = SPTree points
      in case annotateTree (dim this) tree_root of
           Inl e \<Rightarrow> Inl e
         | Inr (root1, _) \<Rightarrow>
             (case assign_rCell root1 of
                Inl e \<Rightarrow> Inl e
              | Inr root2 \<Rightarrow>
                  (case force_loop this points root2 [0 ..< N] 0 [] of
                     Inl e \<Rightarrow> Inl e
                   | Inr (Z, forces) \<Rightarrow>
                       (let A = 4 * alpha;
                            B = 4 / Z
                        in Inr (map (\<lambda>(FPos, FNegZ).
                                  map (\<lambda>d. A * FPos ! d - B * FNegZ ! d) [0 ..< dim this])
                                forces)))))"

definition costGrad :: "(real list list \<Rightarrow> AugmSPNode) \<Rightarrow> TSNE \<Rightarrow> real list \<Rightarrow> fault + real list list" where
  "costGrad SPTree this Y =
     (let alpha = (if iter this < 100 then 4 else 1)
      in costGradA SPTree alpha this Y)"

subsection \<open>The optimizer step\<close>

text \<open>
  The body of the inner loop of the gradient step for the coordinate \<open>(i, d)\<close>; the state
  is the engine and \<open>ymean\<close>. \<open>update_coord_with\<close> is the body after the statement that
  sets \<open>momval\<close>, with \<open>momval\<close> as an argument. The arrays \<open>gains\<close> and \<open>ystep\<close> have \<open>N\<close>
  rows of \<open>dim\<close> entries and \<open>Y\<close> has \<open>N * dim\<close> entries in every engine that
  \<open>initSolution\<close> has set up, so all reads are inside the arrays.
\<close>

definition new_gain :: "real \<Rightarrow> real \<Rightarrow> real \<Rightarrow> real" where
  "new_gain gid sid gainid =
     (let newgain = (if sign gid = sign sid then gainid * (8 / 10) else gainid + 2 / 10)
      in if newgain < 1 / 100 then 1 / 100 else newgain)"

definition update_coord_with :: "real \<Rightarrow> real list list \<Rightarrow> nat \<Rightarrow> nat \<Rightarrow> TSNE \<times> real list \<Rightarrow> TSNE \<times> real list" where
  "update_coord_with momval grad i d s =
     (case s of (this, ymean) \<Rightarrow>
      (let gid = grad ! i ! d;
           sid = ystep this ! i ! d;
           gainid = gains this ! i ! d;
           newgain = new_gain gid sid gainid;
           this1 = this\<lparr>gains := (gains this)[i := (gains this ! i)[d := newgain]]\<rparr>;
           newsid = momval * sid - epsilon this1 * newgain * grad ! i ! d;
           this2 = this1\<lparr>ystep := (ystep this1)[i := (ystep this1 ! i)[d := newsid]]\<rparr>;
           i_d = i * dim this2 + d;
           this3 = this2\<lparr>emb_Y := (emb_Y this2)[i_d := emb_Y this2 ! i_d + newsid]\<rparr>
       in (this3, ymean[d := ymean ! d + emb_Y this3 ! i_d])))"

definition update_coord :: "real list list \<Rightarrow> nat \<Rightarrow> nat \<Rightarrow> TSNE \<times> real list \<Rightarrow> TSNE \<times> real list" where
  "update_coord grad i d s =
     (let momval = (if iter (fst s) < 250 then 5 / 10 else 8 / 10)
      in update_coord_with momval grad i d s)"

definition recenter_coord :: "real list \<Rightarrow> nat \<Rightarrow> nat \<Rightarrow> nat \<Rightarrow> TSNE \<Rightarrow> TSNE" where
  "recenter_coord ymean N i d this =
     this\<lparr>emb_Y := (emb_Y this)[i * dim this + d := emb_Y this ! (i * dim this + d) - ymean ! d / real N]\<rparr>"

definition recenter :: "real list \<Rightarrow> nat \<Rightarrow> TSNE \<Rightarrow> TSNE" where
  "recenter ymean N this = fold (\<lambda>i this'. fold (recenter_coord ymean N i) [0 ..< dim this'] this') [0 ..< N] this"

definition step :: "(real list list \<Rightarrow> AugmSPNode) \<Rightarrow> TSNE \<Rightarrow> fault + TSNE" where
  "step SPTree this0 =
     (let this = this0\<lparr>iter := iter this0 + 1\<rparr>;
          N = num_N this
      in case costGrad SPTree this (emb_Y this) of
           Inl e \<Rightarrow> Inl e
         | Inr grad \<Rightarrow>
             (let ymean = (if dim this = 3 then [0, 0, 0] else [0, 0]);
                  (this1, ymean1) =
                     fold (\<lambda>i s. fold (update_coord grad i) [0 ..< dim (fst s)] s) [0 ..< N] (this, ymean)
              in Inr (recenter ymean1 N this1)))"

text \<open>
  For comparison with \<open>step\<close>: the first loop nest of \<open>step\<close> run with a given momentum
  and a given gradient from \<open>ymean = 0\<close>, and the whole pass run with a given momentum and a
  given multiplier \<open>alpha\<close> on an engine whose counter is already incremented.
\<close>

definition update_pass_with :: "real \<Rightarrow> real list list \<Rightarrow> TSNE \<Rightarrow> TSNE \<times> real list" where
  "update_pass_with momval grad this =
     fold (\<lambda>i. fold (update_coord_with momval grad i) [0 ..< dim this]) [0 ..< num_N this]
       (this, if dim this = 3 then [0, 0, 0] else [0, 0])"

definition step_with ::
  "(real list list \<Rightarrow> AugmSPNode) \<Rightarrow> real \<Rightarrow> real \<Rightarrow> TSNE \<Rightarrow> fault + TSNE" where
  "step_with SPTree momval alpha this =
     (case costGradA SPTree alpha this (emb_Y this) of
        Inl e \<Rightarrow> Inl e
      | Inr grad \<Rightarrow>
          (let (this1, ymean1) = update_pass_with momval grad this
           in Inr (recenter ymean1 (num_N this) this1)))"

text \<open>Running \<open>step\<close> a number of times; a fault ends the run.\<close>

fun steps :: "(real list list \<Rightarrow> AugmSPNode) \<Rightarrow> nat \<Rightarrow> TSNE \<Rightarrow> fault + TSNE" where
  "steps SPTree 0 this = Inr this"
| "steps SPTree (Suc n) this =
     (case step SPTree this of Inl e \<Rightarrow> Inl e | Inr this' \<Rightarrow> steps SPTree n this')"


subsection \<open>Notions used in the properties\<close>

text \<open>The number of nodes of a tree, and of the trees in a list of child slots.\<close>

fun num_nodes :: "AugmSPNode \<Rightarrow> nat"
  and num_nodes_children :: "AugmSPNode option list \<Rightarrow> nat" where
  "num_nodes (SPNode pt cs lo hi nc yc rc) =
     1 + (case cs of None \<Rightarrow> 0 | Some l \<Rightarrow> num_nodes_children l)"
| "num_nodes_children [] = 0"
| "num_nodes_children (None # rest) = num_nodes_children rest"
| "num_nodes_children (Some child # rest) = num_nodes child + num_nodes_children rest"

text \<open>The sum of \<open>numCells\<close> over the non-null children.\<close>

fun child_cells :: "AugmSPNode option list \<Rightarrow> nat" where
  "child_cells [] = 0"
| "child_cells (None # rest) = child_cells rest"
| "child_cells (Some child # rest) = numCells child + child_cells rest"

text \<open>
  The counts of an annotated tree: a leaf has \<open>numCells = 1\<close> and \<open>yCell = point\<close>; an
  internal node counts itself and the cells of its non-null children.
\<close>

fun counts_ok :: "AugmSPNode \<Rightarrow> bool"
  and counts_ok_children :: "AugmSPNode option list \<Rightarrow> bool" where
  "counts_ok (SPNode pt cs lo hi nc yc rc) =
     (case cs of
        None \<Rightarrow> nc = 1 \<and> yc = pt
      | Some l \<Rightarrow> nc = 1 + child_cells l \<and> counts_ok_children l)"
| "counts_ok_children [] = True"
| "counts_ok_children (None # rest) = counts_ok_children rest"
| "counts_ok_children (Some child # rest) = (counts_ok child \<and> counts_ok_children rest)"

text \<open>
  An engine state with two points in the plane, after \<open>t\<close> steps, and a tree for its two
  points: the root stores the first point, its second child slot holds a leaf with the
  second point.
\<close>

definition two_point_tree :: "real list list \<Rightarrow> AugmSPNode" where
  "two_point_tree points =
     SPNode (points ! 0)
       (Some [None, Some (SPNode (points ! 1) None [0, - 1 / 2] [1 / 2, 0] 0 [] 0), None, None])
       [- 1 / 2, - 1 / 2] [1 / 2, 1 / 2] 0 [] 0"

definition two_point_engine :: "nat \<Rightarrow> TSNE" where
  "two_point_engine t =
     \<lparr>perplexity = 30, epsilon = 10, rng = (\<lambda>n. 3 / 4), rng_calls = 4, iter = t,
      emb_Y = [- 1 / 2, 0, 1 / 2, 0], num_N = 2, mat_P = [0, 1 / 2, 1 / 2, 0],
      gains = [[1, 1], [1, 1]], ystep = [[1 / 10, 0], [0, 0]],
      nearest = [[\<lparr>index = 1, dist = 1\<rparr>], [\<lparr>index = 0, dist = 1\<rparr>]],
      dim = 2, bound_dist2 = dist2_2D, bound_computeForce = computeForce_2d\<rparr>"

text \<open>
  The kernels of an engine are bound as the constructor binds them; the squared Euclidean
  distance and the vector \<open>force + mult * (a - b)\<close> over the first \<open>dim'\<close> coordinates.
\<close>

definition bound_kernels :: "TSNE \<Rightarrow> bool" where
  "bound_kernels this =
     ((dim this = 2 \<and> bound_dist2 this = dist2_2D \<and> bound_computeForce this = computeForce_2d)
      \<or> (dim this = 3 \<and> bound_dist2 this = dist2_3D \<and> bound_computeForce this = computeForce_3d))"

definition squared_distance :: "nat \<Rightarrow> real list \<Rightarrow> real list \<Rightarrow> real" where
  "squared_distance dim' a b = (\<Sum>d < dim'. (a ! d - b ! d) ^ 2)"

definition add_scaled_difference :: "nat \<Rightarrow> real list \<Rightarrow> real \<Rightarrow> real list \<Rightarrow> real list \<Rightarrow> real list" where
  "add_scaled_difference dim' force mult a b = map (\<lambda>d. force ! d + mult * (a ! d - b ! d)) [0 ..< dim']"

text \<open>The calibrated row of point \<open>i\<close> at precision \<open>beta\<close>: the clamped kernel values over their sum.\<close>

definition normalized_row :: "nat \<Rightarrow> real \<Rightarrow> neighbor list \<Rightarrow> real list" where
  "normalized_row i beta neighbors =
     map (\<lambda>neighbor. raw_pij i beta neighbor / sum_list (map (raw_pij i beta) neighbors)) neighbors"

text \<open>
  The shape of the arrays of an engine with \<open>N\<close> points in \<open>D\<close> dimensions, as
  \<open>initSolution\<close> sets them up, and the engines of dimension 2 or 3 with that shape.
\<close>

definition engine_shape :: "nat \<Rightarrow> nat \<Rightarrow> TSNE \<Rightarrow> bool" where
  "engine_shape N D this =
     (dim this = D \<and> num_N this = N \<and> length (emb_Y this) = N * D
      \<and> length (gains this) = N \<and> (\<forall>i < N. length (gains this ! i) = D)
      \<and> length (ystep this) = N \<and> (\<forall>i < N. length (ystep this ! i) = D))"

definition wf_engine :: "TSNE \<Rightarrow> bool" where
  "wf_engine this = ((dim this = 2 \<or> dim this = 3) \<and> engine_shape (num_N this) (dim this) this)"

text \<open>
  The effect of the update loop on a set \<open>C\<close> of coordinates \<open>(i, d)\<close>, from the state \<open>s\<close>
  (engine and \<open>ymean\<close>) to the state \<open>s'\<close>: the gains of the coordinates in \<open>C\<close> are
  updated, the other gains, steps and entries of \<open>Y\<close> are untouched, and \<open>ymean\<close> has
  grown by the new entries of \<open>Y\<close> at the coordinates in \<open>C\<close>.
\<close>

definition cells_updated ::
  "nat \<Rightarrow> nat \<Rightarrow> real list list \<Rightarrow> (nat \<times> nat) set \<Rightarrow> TSNE \<times> real list \<Rightarrow> TSNE \<times> real list \<Rightarrow> bool" where
  "cells_updated N D grad C s s' =
     (engine_shape N D (fst s')
      \<and> (\<forall>a b. gains (fst s') ! a ! b
                 = (if (a, b) \<in> C
                    then new_gain (grad ! a ! b) (ystep (fst s) ! a ! b) (gains (fst s) ! a ! b)
                    else gains (fst s) ! a ! b))
      \<and> (\<forall>a b. (a, b) \<notin> C \<longrightarrow> ystep (fst s') ! a ! b = ystep (fst s) ! a ! b)
      \<and> (\<forall>a b. a < N \<and> b < D \<and> (a, b) \<notin> C \<longrightarrow>
                 emb_Y (fst s') ! (a * D + b) = emb_Y (fst s) ! (a * D + b))
      \<and> length (snd s') = length (snd s)
      \<and> (\<forall>b < length (snd s).
            snd s' ! b = snd s ! b + (\<Sum>a \<in> {a. (a, b) \<in> C}. emb_Y (fst s') ! (a * D + b))))"

text \<open>
  What a caller observes of an engine that is initialised while the module-level cache is
  \<open>g\<close> and then stepped \<open>n\<close> times: the solution it returns (\<open>None\<close> when the sampler does
  not return), and the cache that the initialisation leaves behind.
\<close>

definition solution_after ::
  "(real list list \<Rightarrow> AugmSPNode) \<Rightarrow> nat \<Rightarrow> gauss_cache \<Rightarrow> TSNE \<Rightarrow> neighbor list list
   \<Rightarrow> (fault + real list) option" where
  "solution_after SPTree n g this nearest' =
     (case initDataDist g this nearest' of
        None \<Rightarrow> None
      | Some (Inl e) \<Rightarrow> Some (Inl e)
      | Some (Inr (g', this')) \<Rightarrow>
          (case steps SPTree n this' of
             Inl e \<Rightarrow> Some (Inl e)
           | Inr this'' \<Rightarrow> Some (Inr (getSolution this''))))"

definition cache_after :: "gauss_cache \<Rightarrow> TSNE \<Rightarrow> neighbor list list \<Rightarrow> gauss_cache option" where
  "cache_after g this nearest' =
     (case initDataDist g this nearest' of
        Some (Inr (g', this')) \<Rightarrow> Some g'
      | _ \<Rightarrow> None)"

text \<open>
  A generator that returns 3/4 and 1/2 in turn, and the engines that the constructor
  builds for it in dimensions 2 and 3.
\<close>

definition alternating_rng :: "nat \<Rightarrow> real" where
  "alternating_rng n = (if even n then 3 / 4 else 1 / 2)"

definition engine_2d :: TSNE where
  "engine_2d =
     \<lparr>perplexity = 30, epsilon = 10, rng = alternating_rng, rng_calls = 0, iter = 0,
      emb_Y = [], num_N = 0, mat_P = [], gains = [], ystep = [], nearest = [],
      dim = 2, bound_dist2 = dist2_2D, bound_computeForce = computeForce_2d\<rparr>"

definition engine_3d :: TSNE where
  "engine_3d =
     \<lparr>perplexity = 30, epsilon = 10, rng = alternating_rng, rng_calls = 0, iter = 0,
      emb_Y = [], num_N = 0, mat_P = [], gains = [], ystep = [], nearest = [],
      dim = 3, bound_dist2 = dist2_3D, bound_computeForce = computeForce_3d\<rparr>"

text \<open>
  Two states of the module-level cache hold the same pending draw: both are empty, or both
  hold the same value. (The stale \<open>v_val\<close> of an empty cache may differ.)
\<close>

definition cache_agree :: "gauss_cache \<Rightarrow> gauss_cache \<Rightarrow> bool" where
  "cache_agree g g' = (return_v g' = return_v g \<and> (return_v g \<longrightarrow> v_val g' = v_val g))"

subsection \<open>The optimizer step in double precision\<close>

















section \<open>Properties\<close>

subsection \<open>Distance kernels and vectors of unequal length\<close>

text \<open>
  C9 (amended). The generic \<open>dist2\<close> fails with an error whenever it is invoked on two
  vectors of unequal length. The kernels that the constructor binds (\<open>dist2_2D\<close> for
  \<open>dim = 2\<close>, \<open>dist2_3D\<close> for \<open>dim = 3\<close>; it never binds the generic one) never fail with
  an error: on vectors with at least 2 (respectively 3) entries each, of equal length or
  not, they return the squared distance of the first 2 (respectively 3) coordinates.
\<close>

theorem kernels_length_check:
  "(length a \<noteq> length b \<longrightarrow> dist2 a b = Inl (Thrown ''Vectors a and b must be of same length''))
   \<and> (TSNE_constructor Math_random opt = Inr this \<longrightarrow>
        (dim this = 2 \<and> bound_dist2 this = dist2_2D) \<or> (dim this = 3 \<and> bound_dist2 this = dist2_3D))
   \<and> (2 \<le> length a \<and> 2 \<le> length b \<longrightarrow>
        dist2_2D a b = Inr ((a ! 0 - b ! 0) * (a ! 0 - b ! 0) + (a ! 1 - b ! 1) * (a ! 1 - b ! 1)))
   \<and> (3 \<le> length a \<and> 3 \<le> length b \<longrightarrow>
        dist2_3D a b = Inr ((a ! 0 - b ! 0) * (a ! 0 - b ! 0) + (a ! 1 - b ! 1) * (a ! 1 - b ! 1)
                            + (a ! 2 - b ! 2) * (a ! 2 - b ! 2)))
   \<and> dist2_2D a b \<noteq> Inl (Thrown msg) \<and> dist2_3D a b \<noteq> Inl (Thrown msg)"
  by (auto simp: dist2_def dist2_2D_def dist2_3D_def TSNE_constructor_def Let_def
           split: option.splits if_splits)

theorem kernels_length_check_witness:
  "length [1, 2, 3 :: real] \<noteq> length [1, 2, 3, 4 :: real]
   \<and> dist2 [1, 2, 3] [1, 2, 3, 4] = Inl (Thrown ''Vectors a and b must be of same length'')
   \<and> dist2_2D [1, 2, 3] [1, 2, 3, 4] = Inr 0
   \<and> dist2_3D [1, 2, 3] [1, 2, 3, 4] = Inr 0
   \<and> TSNE_constructor alternating_rng
        (Some \<lparr>opt_dim = 2, opt_perplexity = None, opt_epsilon = None, opt_rng = Some alternating_rng\<rparr>)
       = Inr engine_2d
   \<and> dim engine_2d = 2 \<and> bound_dist2 engine_2d = dist2_2D"
  using kernels_length_check [of "[1, 2, 3]" "[1, 2, 3, 4]" alternating_rng
      "Some \<lparr>opt_dim = 2, opt_perplexity = None, opt_epsilon = None, opt_rng = Some alternating_rng\<rparr>"
      engine_2d "''x''"]
  by (simp add: TSNE_constructor_def or_default_def engine_2d_def)

text \<open>
  C9 as stated fails: the kernel bound by an engine of dimension 2 returns a number on
  vectors of lengths 2 and 3.
\<close>

theorem bound_kernel_unequal_length_counterexample:
  "TSNE_constructor alternating_rng
     (Some \<lparr>opt_dim = 2, opt_perplexity = None, opt_epsilon = None, opt_rng = Some alternating_rng\<rparr>)
     = Inr engine_2d
   \<and> length [0, 0 :: real] \<noteq> length [0, 0, 0 :: real]
   \<and> bound_dist2 engine_2d [0, 0] [0, 0, 0] = Inr 0"
  by (simp add: TSNE_constructor_def or_default_def dist2_2D_def engine_2d_def)

subsection \<open>A neighbor that is the point itself\<close>

text \<open>
  C7. The source sets the raw value of a self-neighbor to 0 and then clamps it like every
  other value, so the trial stores \<open>MIN_POSSIBLE_PROB\<close> for it, and its share of the
  normalised row is not 0. Evaluated for row 0 with the neighbors 0 (itself, distance 1)
  and 1 (distance 0) at \<open>beta = 1\<close>.
\<close>

theorem self_neighbor_probability:
  "raw_pij 0 1 \<lparr>index = 0, dist = 1\<rparr> = 1 / 10 ^ 9
   \<and> fst (trial_row 0 [\<lparr>index = 0, dist = 1\<rparr>, \<lparr>index = 1, dist = 0\<rparr>] 1 [0, 0])
       = [1 / (10 ^ 9 + 1), 10 ^ 9 / (10 ^ 9 + 1)]"
  by (simp add: raw_pij_def trial_row_def MIN_POSSIBLE_PROB_def array_set_def Let_def
        split: prod.splits)

subsection \<open>The annotation pass\<close>

lemma annotate_counts:
  "(annotateTree dim' t = Inr (t', n, y) \<longrightarrow>
      counts_ok t' \<and> numCells t' = n \<and> n = num_nodes t)"
  "(annotate_children dim' cs n0 y0 = Inr (cs', n, y) \<longrightarrow>
      counts_ok_children cs' \<and> n = n0 + child_cells cs' \<and> n = n0 + num_nodes_children cs)"
proof (induction dim' t and dim' cs n0 y0 arbitrary: t' n y and cs' n y
       rule: annotateTree_annotate_children.induct)
  case (1 dim' pt lo hi nc yc rc)
  then show ?case by auto
next
  case (2 dim' pt cs lo hi nc yc rc)
  then show ?case by (auto split: sum.splits)
next
  case (3 dim' numCells' yCell')
  then show ?case by auto
next
  case (4 dim' rest numCells' yCell')
  then show ?case by (auto split: sum.splits)
next
  case (5 dim' child rest numCells' yCell')
  then show ?case by (fastforce split: sum.splits)
qed

text \<open>
  C8 (amended). After the annotation pass every leaf has \<open>numCells = 1\<close> and \<open>yCell\<close> equal
  to its point, every internal node has \<open>numCells\<close> equal to 1 (the point the node itself
  stores) plus the sum of \<open>numCells\<close> over its non-null children, and the root's \<open>numCells\<close>
  is the value the pass returns and equals the number of nodes of the tree; so it equals
  \<open>N\<close> when the tree stores one embedded point per node.
\<close>

theorem annotateTree_counts:
  "annotateTree dim' t = Inr (t', n, y) \<Longrightarrow>
     counts_ok t' \<and> numCells t' = n \<and> numCells t' = num_nodes t"
  using annotate_counts(1) [of dim' t t' n y] by simp

theorem annotateTree_counts_witness:
  "annotateTree 2 (SPNode [0, 0] (Some [Some (SPNode [1, 1] None [] [] 0 [] 0), None]) [] [] 0 [] 0)
     = Inr (SPNode [0, 0] (Some [Some (SPNode [1, 1] None [] [] 1 [1, 1] 0), None]) [] [] 2 [1 / 2, 1 / 2] 0,
            2, [1, 1])
   \<and> counts_ok (SPNode [0, 0] (Some [Some (SPNode [1, 1] None [] [] 1 [1, 1] 0), None]) [] [] 2 [1 / 2, 1 / 2] 0)
   \<and> num_nodes (SPNode [0, 0] (Some [Some (SPNode [1, 1] None [] [] 0 [] 0), None]) [] [] 0 [] 0) = 2"
  using annotateTree_counts [of 2
      "SPNode [0, 0] (Some [Some (SPNode [1, 1] None [] [] 0 [] 0), None]) [] [] 0 [] 0"
      "SPNode [0, 0] (Some [Some (SPNode [1, 1] None [] [] 1 [1, 1] 0), None]) [] [] 2 [1 / 2, 1 / 2] 0"
      2 "[1, 1]"]
  by (simp add: add_yCell_def numeral_2_eq_2)

text \<open>
  C8 as stated fails: an internal node with one leaf child gets \<open>numCells = 2\<close>, while the
  sum of \<open>numCells\<close> over its non-null children is 1.
\<close>

theorem internal_numCells_counterexample:
  "annotateTree 2 (SPNode [0, 0] (Some [Some (SPNode [1, 1] None [] [] 0 [] 0), None]) [] [] 0 [] 0)
     = Inr (SPNode [0, 0] (Some [Some (SPNode [1, 1] None [] [] 1 [1, 1] 0), None]) [] [] 2 [1 / 2, 1 / 2] 0,
            2, [1, 1])
   \<and> (2::nat) \<noteq> child_cells [Some (SPNode [1, 1] None [] [] 1 [1, 1] 0), None]"
  by (simp add: add_yCell_def numeral_2_eq_2)

subsection \<open>Fields that the passes of a step leave alone\<close>

lemma update_coord_with_fields:
  "iter (fst (update_coord_with m grad i d s)) = iter (fst s)"
  "dim (fst (update_coord_with m grad i d s)) = dim (fst s)"
  "num_N (fst (update_coord_with m grad i d s)) = num_N (fst s)"
  "epsilon (fst (update_coord_with m grad i d s)) = epsilon (fst s)"
  by (simp_all add: update_coord_with_def Let_def split: prod.splits)

lemma fold_update_coord_with_fields:
  "iter (fst (fold (update_coord_with m grad i) ds s)) = iter (fst s)
   \<and> dim (fst (fold (update_coord_with m grad i) ds s)) = dim (fst s)
   \<and> num_N (fst (fold (update_coord_with m grad i) ds s)) = num_N (fst s)
   \<and> epsilon (fst (fold (update_coord_with m grad i) ds s)) = epsilon (fst s)"
  by (induction ds arbitrary: s) (simp_all add: update_coord_with_fields)

lemma fold_fold_update_coord_with_fields:
  "iter (fst (fold (\<lambda>i. fold (update_coord_with m grad i) ds) is s)) = iter (fst s)
   \<and> dim (fst (fold (\<lambda>i. fold (update_coord_with m grad i) ds) is s)) = dim (fst s)
   \<and> num_N (fst (fold (\<lambda>i. fold (update_coord_with m grad i) ds) is s)) = num_N (fst s)
   \<and> epsilon (fst (fold (\<lambda>i. fold (update_coord_with m grad i) ds) is s)) = epsilon (fst s)"
  by (induction "is" arbitrary: s) (simp_all add: fold_update_coord_with_fields)

lemma fold_update_coord_eq:
  "fold (update_coord grad i) ds s
   = fold (update_coord_with (if iter (fst s) < 250 then 5 / 10 else 8 / 10) grad i) ds s"
proof (induction ds arbitrary: s)
  case Nil
  show ?case by simp
next
  case (Cons d ds)
  let ?m = "if iter (fst s) < 250 then 5 / 10 else 8 / 10 :: real"
  have "update_coord grad i d s = update_coord_with ?m grad i d s"
    by (simp add: update_coord_def)
  then show ?case
    using Cons [of "update_coord_with ?m grad i d s"]
    by (simp add: update_coord_with_fields)
qed

lemma fold_rows_update_coord_eq:
  "fold (\<lambda>i s. fold (update_coord grad i) [0 ..< dim (fst s)] s) is s
   = fold (\<lambda>i. fold (update_coord_with (if iter (fst s) < 250 then 5 / 10 else 8 / 10) grad i)
                  [0 ..< dim (fst s)]) is s"
proof (induction "is" arbitrary: s)
  case Nil
  show ?case by simp
next
  case (Cons i "is")
  let ?m = "if iter (fst s) < 250 then 5 / 10 else 8 / 10 :: real"
  let ?s' = "fold (update_coord_with ?m grad i) [0 ..< dim (fst s)] s"
  have a: "fold (update_coord grad i) [0 ..< dim (fst s)] s = ?s'"
    by (rule fold_update_coord_eq)
  have b: "iter (fst ?s') = iter (fst s)" "dim (fst ?s') = dim (fst s)"
    by (simp_all add: fold_update_coord_with_fields)
  show ?case
    using Cons [of ?s'] by (simp add: a b)
qed

lemma recenter_coord_fields:
  "iter (recenter_coord ym N i d this) = iter this"
  "dim (recenter_coord ym N i d this) = dim this"
  "num_N (recenter_coord ym N i d this) = num_N this"
  "gains (recenter_coord ym N i d this) = gains this"
  "ystep (recenter_coord ym N i d this) = ystep this"
  by (simp_all add: recenter_coord_def)

lemma fold_recenter_coord_fields:
  "iter (fold (recenter_coord ym N i) ds this) = iter this
   \<and> dim (fold (recenter_coord ym N i) ds this) = dim this
   \<and> num_N (fold (recenter_coord ym N i) ds this) = num_N this
   \<and> gains (fold (recenter_coord ym N i) ds this) = gains this
   \<and> ystep (fold (recenter_coord ym N i) ds this) = ystep this"
  by (induction ds arbitrary: this) (simp_all add: recenter_coord_fields)

lemma recenter_rows_fields:
  "iter (fold (\<lambda>i this'. fold (recenter_coord ym N i) [0 ..< dim this'] this') is this) = iter this
   \<and> dim (fold (\<lambda>i this'. fold (recenter_coord ym N i) [0 ..< dim this'] this') is this) = dim this
   \<and> num_N (fold (\<lambda>i this'. fold (recenter_coord ym N i) [0 ..< dim this'] this') is this) = num_N this
   \<and> gains (fold (\<lambda>i this'. fold (recenter_coord ym N i) [0 ..< dim this'] this') is this) = gains this
   \<and> ystep (fold (\<lambda>i this'. fold (recenter_coord ym N i) [0 ..< dim this'] this') is this) = ystep this"
  by (induction "is" arbitrary: this) (simp_all add: fold_recenter_coord_fields)

lemma recenter_fields:
  "iter (recenter ym N this) = iter this"
  "dim (recenter ym N this) = dim this"
  "num_N (recenter ym N this) = num_N this"
  "gains (recenter ym N this) = gains this"
  "ystep (recenter ym N this) = ystep this"
  by (simp_all add: recenter_def recenter_rows_fields)

lemma step_eq_step_with:
  "step SPTree this
   = step_with SPTree (if iter this + 1 < 250 then 5 / 10 else 8 / 10)
       (if iter this + 1 < 100 then 4 else 1) (this\<lparr>iter := iter this + 1\<rparr>)"
  by (simp add: step_def step_with_def update_pass_with_def costGrad_def Let_def
        fold_rows_update_coord_eq split: sum.splits)

lemma step_with_iter:
  "step_with SPTree m a this = Inr this' \<Longrightarrow> iter this' = iter this"
  by (auto simp: step_with_def update_pass_with_def Let_def recenter_fields
        split: sum.splits prod.splits)
     (metis fold_fold_update_coord_with_fields fst_conv)

subsection \<open>A step of the engine with two points\<close>

lemma sqrt_quarter: "sqrt (1 / 4) = 1 / 2"
  by (simp add: real_sqrt_divide)

lemma upt2: "[0 ..< 2] = [0, 1]"
  by (simp add: numeral_2_eq_2)

lemma two_point_grad:
  "costGradA two_point_tree a (two_point_engine t) (emb_Y (two_point_engine t))
     = Inr [[1 / 3 - a, 0], [a - 1 / 3, 0]]"
  by (simp add: costGradA_def two_point_tree_def two_point_engine_def make_points_def upt2
      add_yCell_def repulse_def dist2_2D_def computeForce_2d_def THETA_def Let_def sqrt_quarter)

lemma two_point_step_with:
  assumes "1 / 3 < a"
  shows "step_with two_point_tree m a (two_point_engine t)
     = Inr ((two_point_engine t)
              \<lparr>emb_Y := [m / 20 + 12 * a - 9 / 2, 0, 9 / 2 - 12 * a - m / 20, 0],
               gains := [[6 / 5, 4 / 5], [6 / 5, 4 / 5]],
               ystep := [[m / 10 + 12 * a - 4, 0], [4 - 12 * a, 0]]\<rparr>)"
  using assms
  by (simp add: step_with_def update_pass_with_def two_point_grad recenter_def)
     (simp add: two_point_engine_def upt2 update_coord_with_def new_gain_def sign_def
        recenter_coord_def Let_def)

lemma two_point_engine_iter:
  "(two_point_engine t)\<lparr>iter := n\<rparr> = two_point_engine n"
  "iter (two_point_engine t) = t"
  by (simp_all add: two_point_engine_def)

lemma two_point_step:
  "step two_point_tree (two_point_engine 0)
     = Inr ((two_point_engine 1)
              \<lparr>emb_Y := [1741 / 40, 0, - (1741 / 40), 0],
               gains := [[6 / 5, 4 / 5], [6 / 5, 4 / 5]],
               ystep := [[881 / 20, 0], [- 44, 0]]\<rparr>)"
  by (simp add: step_eq_step_with two_point_engine_iter two_point_step_with)

subsection \<open>Evaluating the sampler\<close>

lemma gaussRandom_cached:
  "return_v g \<Longrightarrow> gaussRandom R g pos = Some (v_val g, g\<lparr>return_v := False\<rparr>, pos)"
  by (subst gaussRandom.simps) simp

lemma gaussRandom_accepted:
  assumes "\<not> return_v g"
    and "r = (2 * R pos - 1) * (2 * R pos - 1) + (2 * R (pos + 1) - 1) * (2 * R (pos + 1) - 1)"
    and "0 < r" and "r \<le> 1"
  shows "gaussRandom R g pos
         = Some ((2 * R pos - 1) * sqrt (- 2 * ln r / r),
                 g\<lparr>v_val := (2 * R (pos + 1) - 1) * sqrt (- 2 * ln r / r), return_v := True\<rparr>,
                 pos + 2)"
proof -
  have nr: "\<not> (r = 0 \<or> r > 1)"
    using assms(3,4) by simp
  show ?thesis
    apply (subst gaussRandom.simps)
    using assms(1) nr unfolding Let_def assms(2) [symmetric]
    by simp
qed

lemma randnMatrix_two_point:
  "randnMatrix 2 2 (\<lambda>n. 3 / 4) \<lparr>return_v = False, v_val = 0\<rparr> pos
   = Some (replicate 4 (sqrt (- (4 * ln (1 / 2))) / 2 / 10 ^ 4),
           \<lparr>return_v = False, v_val = sqrt (- (4 * ln (1 / 2))) / 2\<rparr>, pos + 4)"
  by (simp add: randnMatrix_def zeros_def randn_def gaussRandom_cached randnMatrix_loop.simps
        gaussRandom_accepted [where r = "1 / 2"] numeral_eq_Suc)

subsection \<open>The iteration counter and the two schedules\<close>

text \<open>
  C3 (amended). The iteration counter is 0 after construction and after \<open>initSolution\<close>,
  and a step that returns has increased it by exactly 1. The step increments the counter
  first and reads both schedules from the incremented value: a step whose pre-step counter
  is \<open>t\<close> runs with momentum 0.5 if \<open>t + 1 < 250\<close> and 0.8 otherwise, and with the
  attractive-force multiplier 4 if \<open>t + 1 < 100\<close> and 1 otherwise.
\<close>

theorem iteration_counter_schedules:
  "(TSNE_constructor Math_random opt = Inr this_c \<longrightarrow> iter this_c = 0)
   \<and> (initSolution g this_i = Some (g', this_i') \<longrightarrow> iter this_i' = 0)
   \<and> (step SPTree this = Inr this' \<longrightarrow> iter this' = iter this + 1)
   \<and> step SPTree this
       = step_with SPTree (if iter this + 1 < 250 then 5 / 10 else 8 / 10)
           (if iter this + 1 < 100 then 4 else 1) (this\<lparr>iter := iter this + 1\<rparr>)"
proof -
  have c: "TSNE_constructor Math_random opt = Inr this_c \<longrightarrow> iter this_c = 0"
    by (auto simp: TSNE_constructor_def Let_def split: if_splits)
  have i: "initSolution g this_i = Some (g', this_i') \<longrightarrow> iter this_i' = 0"
    by (auto simp: initSolution_def split: option.splits)
  have s: "step SPTree this = Inr this' \<longrightarrow> iter this' = iter this + 1"
    using step_with_iter [of SPTree _ _ "this\<lparr>iter := iter this + 1\<rparr>" this']
    by (simp add: step_eq_step_with)
  show ?thesis
    using c i s step_eq_step_with by blast
qed


theorem iteration_counter_schedules_witness:
  "(\<exists>this_c. TSNE_constructor (\<lambda>n. 3 / 4) None = Inr this_c \<and> iter this_c = 0)
   \<and> (\<exists>g' this_i'. initSolution \<lparr>return_v = False, v_val = 0\<rparr> (two_point_engine 7) = Some (g', this_i')
          \<and> iter this_i' = 0)
   \<and> (\<exists>this'. step two_point_tree (two_point_engine 0) = Inr this' \<and> iter this' = 1)
   \<and> step two_point_tree (two_point_engine 0)
       = step_with two_point_tree (5 / 10) 4 (two_point_engine 1)"
proof -
  obtain this_c where c: "TSNE_constructor (\<lambda>n. 3 / 4) None = Inr this_c"
    by (simp add: TSNE_constructor_def)
  obtain g' this_i' where i:
    "initSolution \<lparr>return_v = False, v_val = 0\<rparr> (two_point_engine 7) = Some (g', this_i')"
    by (simp add: initSolution_def two_point_engine_def randnMatrix_two_point)
  obtain this' where s: "step two_point_tree (two_point_engine 0) = Inr this'"
    by (simp add: two_point_step)
  show ?thesis
    using iteration_counter_schedules [of "\<lambda>n. 3 / 4" None this_c "\<lparr>return_v = False, v_val = 0\<rparr>"
        "two_point_engine 7" g' this_i' two_point_tree "two_point_engine 0" this'] c i s
    by (simp add: two_point_engine_iter) metis
qed

text \<open>
  C3 as stated fails at the pre-step counter values 249 and 99: the step from 249 is the
  pass with momentum 0.8, not the one with momentum 0.5, and the step from 99 is the pass
  with multiplier 1, not the one with multiplier 4.
\<close>

theorem schedule_thresholds_counterexample:
  "iter (two_point_engine 249) = 249
   \<and> step two_point_tree (two_point_engine 249)
       = step_with two_point_tree (8 / 10) 1 ((two_point_engine 249)\<lparr>iter := 250\<rparr>)
   \<and> step two_point_tree (two_point_engine 249)
       \<noteq> step_with two_point_tree (5 / 10) 1 ((two_point_engine 249)\<lparr>iter := 250\<rparr>)
   \<and> iter (two_point_engine 99) = 99
   \<and> step two_point_tree (two_point_engine 99)
       = step_with two_point_tree (5 / 10) 1 ((two_point_engine 99)\<lparr>iter := 100\<rparr>)
   \<and> step two_point_tree (two_point_engine 99)
       \<noteq> step_with two_point_tree (5 / 10) 4 ((two_point_engine 99)\<lparr>iter := 100\<rparr>)"
  by (simp add: step_eq_step_with two_point_engine_iter two_point_step_with)
     (simp add: two_point_engine_def)

subsection \<open>The repulsive pass\<close>

lemma upt3: "[0 ..< 3] = [0, 1, 2]"
  by (simp add: numeral_3_eq_3)

lemma bound_dist2_value:
  assumes "bound_kernels this" "length a = dim this" "length b = dim this"
  shows "bound_dist2 this a b = Inr (squared_distance (dim this) a b)"
  using assms
  by (auto simp: bound_kernels_def dist2_2D_def dist2_3D_def squared_distance_def Let_def
        numeral_2_eq_2 numeral_3_eq_3 power2_eq_square)

lemma bound_computeForce_value:
  assumes "bound_kernels this" "length force = dim this" "length a = dim this" "length b = dim this"
  shows "bound_computeForce this force mult a b = Inr (add_scaled_difference (dim this) force mult a b)"
proof -
  consider (two) "dim this = 2" "bound_computeForce this = computeForce_2d"
    | (three) "dim this = 3" "bound_computeForce this = computeForce_3d"
    using assms(1) by (auto simp: bound_kernels_def)
  then show ?thesis
  proof cases
    case two
    obtain f0 f1 where f: "force = [f0, f1]"
      using assms(2) two(1) by (cases force; cases "tl force") auto
    show ?thesis
      using two assms(3,4)
      by (simp add: f computeForce_2d_def add_scaled_difference_def upt2 Let_def)
  next
    case three
    obtain f0 f1 f2 where f: "force = [f0, f1, f2]"
      using assms(2) three(1) by (cases force; cases "tl force"; cases "tl (tl force)") auto
    show ?thesis
      using three assms(3,4)
      by (simp add: f computeForce_3d_def add_scaled_difference_def upt3 Let_def)
  qed
qed

text \<open>
  C2. For an engine with the kernels of its dimension, a query point \<open>pointI\<close> and a
  visited node with centroid \<open>yCell\<close>, count \<open>numCells\<close> and extent \<open>rCell\<close>: if the node is
  a leaf, or \<open>s\<^sup>2 > 0\<close> and \<open>rCell / sqrt s\<^sup>2 < 0.8\<close> for the squared distance \<open>s\<^sup>2\<close> from
  \<open>pointI\<close> to \<open>yCell\<close>, the callback adds \<open>numCells * q\<close> to \<open>Z\<close> and
  \<open>numCells * q\<^sup>2 * (pointI - yCell)\<close> to \<open>FnegZ\<close> with \<open>q = 1 / (1 + s\<^sup>2)\<close>, and the
  traversal does not descend. Otherwise it adds the singleton term
  \<open>1 / (1 + ||pointI - point||\<^sup>2)\<close> to \<open>Z\<close> and the corresponding force with the node's
  \<open>point\<close>, and the traversal goes on into the children.
\<close>

theorem repulse_barnes_hut:
  assumes "bound_kernels this"
    and "length pointI = dim this" and "length FnegZ = dim this"
    and "length (yCell node) = dim this" and "length (point node) = dim this"
  shows "repulse this pointI node (Z, FnegZ)
         = (if children node = None
               \<or> (squared_distance (dim this) pointI (yCell node) > 0
                   \<and> rCell node / sqrt (squared_distance (dim this) pointI (yCell node)) < 8 / 10)
            then Inr ((Z + real (numCells node) * (1 / (1 + squared_distance (dim this) pointI (yCell node))),
                       add_scaled_difference (dim this) FnegZ
                         (real (numCells node) * (1 / (1 + squared_distance (dim this) pointI (yCell node))) ^ 2)
                         pointI (yCell node)),
                      True)
            else Inr ((Z + 1 / (1 + squared_distance (dim this) pointI (point node)),
                       add_scaled_difference (dim this) FnegZ
                         ((1 / (1 + squared_distance (dim this) pointI (point node))) ^ 2)
                         pointI (point node)),
                      False))
       \<and> visitNode (repulse this pointI) node (Z, FnegZ)
         = (case repulse this pointI node (Z, FnegZ) of
              Inl e \<Rightarrow> Inl e
            | Inr (s', skip) \<Rightarrow>
                if skip then Inr s' else visitChildren (repulse this pointI) (the (children node)) s')"
proof -
  have r: "repulse this pointI node (Z, FnegZ)
         = (if children node = None
               \<or> (squared_distance (dim this) pointI (yCell node) > 0
                   \<and> rCell node / sqrt (squared_distance (dim this) pointI (yCell node)) < 8 / 10)
            then Inr ((Z + real (numCells node) * (1 / (1 + squared_distance (dim this) pointI (yCell node))),
                       add_scaled_difference (dim this) FnegZ
                         (real (numCells node) * (1 / (1 + squared_distance (dim this) pointI (yCell node))) ^ 2)
                         pointI (yCell node)),
                      True)
            else Inr ((Z + 1 / (1 + squared_distance (dim this) pointI (point node)),
                       add_scaled_difference (dim this) FnegZ
                         ((1 / (1 + squared_distance (dim this) pointI (point node))) ^ 2)
                         pointI (point node)),
                      False))"
    using assms
    by (simp add: repulse_def bound_dist2_value bound_computeForce_value THETA_def Let_def
          power2_eq_square)
  have v: "visitNode (repulse this pointI) node (Z, FnegZ)
         = (case repulse this pointI node (Z, FnegZ) of
              Inl e \<Rightarrow> Inl e
            | Inr (s', skip) \<Rightarrow>
                if skip then Inr s' else visitChildren (repulse this pointI) (the (children node)) s')"
  proof (cases "children node")
    case None
    then have "\<exists>s'. repulse this pointI node (Z, FnegZ) = Inr (s', True)"
      using r by simp
    then show ?thesis
      using None by (cases node) auto
  next
    case (Some l)
    then show ?thesis
      by (cases node) (auto split: sum.splits)
  qed
  show ?thesis
    using r v by blast
qed


lemma constructor_bound_kernels:
  "TSNE_constructor Math_random opt = Inr this \<Longrightarrow> bound_kernels this"
  by (auto simp: TSNE_constructor_def bound_kernels_def Let_def split: if_splits)

theorem repulse_barnes_hut_witness:
  "bound_kernels (two_point_engine 0)
   \<and> repulse (two_point_engine 0) [- 1 / 2, 0]
        (SPNode [- 1 / 2, 0]
           (Some [None, Some (SPNode [1 / 2, 0] None [0, - 1 / 2] [1 / 2, 0] 1 [1 / 2, 0] (1 / 2)), None, None])
           [- 1 / 2, - 1 / 2] [1 / 2, 1 / 2] 2 [0, 0] 1)
        (0, [0, 0])
       = Inr ((1, [0, 0]), False)
   \<and> visitNode (repulse (two_point_engine 0) [- 1 / 2, 0])
        (SPNode [- 1 / 2, 0]
           (Some [None, Some (SPNode [1 / 2, 0] None [0, - 1 / 2] [1 / 2, 0] 1 [1 / 2, 0] (1 / 2)), None, None])
           [- 1 / 2, - 1 / 2] [1 / 2, 1 / 2] 2 [0, 0] 1)
        (0, [0, 0])
       = Inr (3 / 2, [- 1 / 4, 0])
   \<and> repulse (two_point_engine 0) [- 1 / 2, 0]
        (SPNode [1 / 2, 0] None [0, - 1 / 2] [1 / 2, 0] 1 [1 / 2, 0] (1 / 2)) (1, [0, 0])
       = Inr ((3 / 2, [- 1 / 4, 0]), True)"
proof -
  have k: "bound_kernels (two_point_engine 0)"
    by (simp add: bound_kernels_def two_point_engine_def)
  have d: "dim (two_point_engine 0) = 2"
    by (simp add: two_point_engine_def)
  have leaf: "repulse (two_point_engine 0) [- 1 / 2, 0]
        (SPNode [1 / 2, 0] None [0, - 1 / 2] [1 / 2, 0] 1 [1 / 2, 0] (1 / 2)) (1, [0, 0])
       = Inr ((3 / 2, [- 1 / 4, 0]), True)"
    using repulse_barnes_hut [OF k, of "[- 1 / 2, 0]" "[0, 0]"
        "SPNode [1 / 2, 0] None [0, - 1 / 2] [1 / 2, 0] 1 [1 / 2, 0] (1 / 2)" 1]
    by (simp add: d squared_distance_def add_scaled_difference_def upt2 numeral_2_eq_2 power2_eq_square)
  show ?thesis
    using repulse_barnes_hut [OF k, of "[- 1 / 2, 0]" "[0, 0]"
        "SPNode [- 1 / 2, 0]
           (Some [None, Some (SPNode [1 / 2, 0] None [0, - 1 / 2] [1 / 2, 0] 1 [1 / 2, 0] (1 / 2)), None, None])
           [- 1 / 2, - 1 / 2] [1 / 2, 1 / 2] 2 [0, 0] 1" 0] k leaf
    by (simp add: d squared_distance_def add_scaled_difference_def upt2 numeral_2_eq_2 power2_eq_square
          sqrt_quarter)
qed

subsection \<open>The symmetrisation\<close>

lemma cell_index_less: "a < N \<Longrightarrow> b < N \<Longrightarrow> a * N + b < N * (N::nat)"
proof -
  assume a: "a < N" and b: "b < N"
  have "a * N + b < a * N + N" using b by simp
  also have "\<dots> = Suc a * N" by simp
  also have "\<dots> \<le> N * N" using a by (metis Suc_leI mult_le_mono1)
  finally show ?thesis .
qed

lemma cell_index_inj:
  assumes "b < N" "d < N"
  shows "(a * N + b = c * N + d) = (a = c \<and> b = (d::nat))"
proof
  assume e: "a * N + b = c * N + d"
  have "(a * N + b) div N = a" "(a * N + b) mod N = b"
    using assms(1) by simp_all
  moreover have "(c * N + d) div N = c" "(c * N + d) mod N = d"
    using assms(2) by simp_all
  ultimately show "a = c \<and> b = d" using e by metis
next
  assume "a = c \<and> b = d"
  then show "a * N + b = c * N + d" by simp
qed

lemma length_symmetrize_cell: "length (symmetrize_cell N i j P) = length P"
  by (simp add: symmetrize_cell_def Let_def)

lemma length_fold_symmetrize_cell: "length (fold (symmetrize_cell N i) js P) = length P"
  by (induction js arbitrary: P) (simp_all add: length_symmetrize_cell)

lemma length_symmetrize_rows:
  "length (fold (\<lambda>i. fold (symmetrize_cell N i) (f i)) is P) = length P"
  by (induction "is" arbitrary: P) (simp_all add: length_fold_symmetrize_cell)

lemma length_symmetrize: "length (symmetrize N P) = length P"
  by (simp add: symmetrize_def length_symmetrize_rows)

lemma symmetrize_cell_nth:
  assumes "length P = N * N" "i < N" "j < N" "a < N" "b < N"
  shows "symmetrize_cell N i j P ! (a * N + b)
         = (if (a = i \<and> b = j) \<or> (a = j \<and> b = i)
            then (P ! (i * N + j) + P ! (j * N + i)) / real (N * 2)
            else P ! (a * N + b))"
proof -
  define x where "x = i * N + j"
  define y where "y = j * N + i"
  define z where "z = a * N + b"
  have e1: "(x = z) = (i = a \<and> j = b)"
    unfolding x_def z_def using cell_index_inj [of j N b i a] assms by simp
  have e2: "(y = z) = (j = a \<and> i = b)"
    unfolding y_def z_def using cell_index_inj [of i N b j a] assms by simp
  have l1: "x < length P" "y < length P"
    unfolding x_def y_def using assms cell_index_less by simp_all
  have "symmetrize_cell N i j P = (P[x := (P ! x + P ! y) / real (N * 2)])[y := (P ! x + P ! y) / real (N * 2)]"
    by (simp add: symmetrize_cell_def Let_def x_def y_def)
  then have r: "symmetrize_cell N i j P ! z
            = ((P[x := (P ! x + P ! y) / real (N * 2)])[y := (P ! x + P ! y) / real (N * 2)]) ! z"
    by simp
  consider (ij) "a = i \<and> b = j" | (ji) "a = j \<and> b = i"
    | (other) "\<not> (a = i \<and> b = j) \<and> \<not> (a = j \<and> b = i)"
    by blast
  then have "symmetrize_cell N i j P ! z
         = (if (a = i \<and> b = j) \<or> (a = j \<and> b = i)
            then (P ! x + P ! y) / real (N * 2)
            else P ! z)"
  proof cases
    case ij
    then have "z = x" using e1 by blast
    then show ?thesis
      unfolding r using ij l1 by (simp add: nth_list_update)
  next
    case ji
    then have "z = y" using e2 by blast
    then show ?thesis
      unfolding r using ji l1 by (simp add: nth_list_update)
  next
    case other
    then have "x \<noteq> z" "y \<noteq> z" using e1 e2 by blast+
    then show ?thesis
      unfolding r using other by auto
  qed
  then show ?thesis
    by (simp add: x_def y_def z_def)
qed

lemma symmetrize_row_nth:
  assumes "length P = N * N" "i < N" "a < N" "b < N"
    and "distinct js" "\<forall>j \<in> set js. i < j \<and> j < N"
  shows "fold (symmetrize_cell N i) js P ! (a * N + b)
         = (if (a = i \<and> b \<in> set js) \<or> (b = i \<and> a \<in> set js)
            then (P ! (a * N + b) + P ! (b * N + a)) / real (N * 2)
            else P ! (a * N + b))"
  using assms
proof (induction js arbitrary: P)
  case Nil
  then show ?case by simp
next
  case (Cons j js)
  let ?P1 = "symmetrize_cell N i j P"
  have l: "length ?P1 = N * N"
    using Cons.prems(1) by (simp add: length_symmetrize_cell)
  have j: "i < j" "j < N" "j \<notin> set js" "distinct js" "\<forall>j \<in> set js. i < j \<and> j < N"
    using Cons.prems by auto
  have ih: "fold (symmetrize_cell N i) js ?P1 ! (a * N + b)
         = (if (a = i \<and> b \<in> set js) \<or> (b = i \<and> a \<in> set js)
            then (?P1 ! (a * N + b) + ?P1 ! (b * N + a)) / real (N * 2)
            else ?P1 ! (a * N + b))"
    using Cons.IH [OF l Cons.prems(2) Cons.prems(3) Cons.prems(4) j(4) j(5)] .
  have ab: "?P1 ! (a * N + b)
         = (if (a = i \<and> b = j) \<or> (a = j \<and> b = i)
            then (P ! (i * N + j) + P ! (j * N + i)) / real (N * 2)
            else P ! (a * N + b))"
    using symmetrize_cell_nth [OF Cons.prems(1) Cons.prems(2) j(2) Cons.prems(3) Cons.prems(4)] .
  have ba: "?P1 ! (b * N + a)
         = (if (b = i \<and> a = j) \<or> (b = j \<and> a = i)
            then (P ! (i * N + j) + P ! (j * N + i)) / real (N * 2)
            else P ! (b * N + a))"
    using symmetrize_cell_nth [OF Cons.prems(1) Cons.prems(2) j(2) Cons.prems(4) Cons.prems(3)] .
  have "fold (symmetrize_cell N i) (j # js) P ! (a * N + b)
        = fold (symmetrize_cell N i) js ?P1 ! (a * N + b)"
    by simp
  also have "\<dots> = (if (a = i \<and> b \<in> set js) \<or> (b = i \<and> a \<in> set js)
            then (?P1 ! (a * N + b) + ?P1 ! (b * N + a)) / real (N * 2)
            else ?P1 ! (a * N + b))"
    by (rule ih)
  also have "\<dots> = (if (a = i \<and> b \<in> set (j # js)) \<or> (b = i \<and> a \<in> set (j # js))
            then (P ! (a * N + b) + P ! (b * N + a)) / real (N * 2)
            else P ! (a * N + b))"
    unfolding ab ba using j(1,3) Cons.prems(6) by auto
  finally show ?case .
qed


lemma symmetrize_rows_nth:
  assumes "length P = N * N" "a < N" "b < N" "distinct is" "\<forall>i \<in> set is. i < N"
  shows "fold (\<lambda>i. fold (symmetrize_cell N i) [i + 1 ..< N]) is P ! (a * N + b)
         = (if (a \<in> set is \<and> a < b) \<or> (b \<in> set is \<and> b < a)
            then (P ! (a * N + b) + P ! (b * N + a)) / real (N * 2)
            else P ! (a * N + b))"
  using assms
proof (induction "is" arbitrary: P)
  case Nil
  then show ?case by simp
next
  case (Cons i "is")
  let ?P1 = "fold (symmetrize_cell N i) [i + 1 ..< N] P"
  have l: "length ?P1 = N * N"
    using Cons.prems(1) by (simp add: length_fold_symmetrize_cell)
  have i: "i < N" "i \<notin> set is" "distinct is" "\<forall>i \<in> set is. i < N"
    using Cons.prems by auto
  have js: "distinct [i + 1 ..< N]" "\<forall>j \<in> set [i + 1 ..< N]. i < j \<and> j < N"
    by auto
  have ih: "fold (\<lambda>i. fold (symmetrize_cell N i) [i + 1 ..< N]) is ?P1 ! (a * N + b)
         = (if (a \<in> set is \<and> a < b) \<or> (b \<in> set is \<and> b < a)
            then (?P1 ! (a * N + b) + ?P1 ! (b * N + a)) / real (N * 2)
            else ?P1 ! (a * N + b))"
    using Cons.IH [OF l Cons.prems(2) Cons.prems(3) i(3) i(4)] .
  have ab: "?P1 ! (a * N + b)
         = (if (a = i \<and> b \<in> set [i + 1 ..< N]) \<or> (b = i \<and> a \<in> set [i + 1 ..< N])
            then (P ! (a * N + b) + P ! (b * N + a)) / real (N * 2)
            else P ! (a * N + b))"
    using symmetrize_row_nth [OF Cons.prems(1) i(1) Cons.prems(2) Cons.prems(3) js] .
  have ba: "?P1 ! (b * N + a)
         = (if (b = i \<and> a \<in> set [i + 1 ..< N]) \<or> (a = i \<and> b \<in> set [i + 1 ..< N])
            then (P ! (b * N + a) + P ! (a * N + b)) / real (N * 2)
            else P ! (b * N + a))"
    using symmetrize_row_nth [OF Cons.prems(1) i(1) Cons.prems(3) Cons.prems(2) js] .
  have "fold (\<lambda>i. fold (symmetrize_cell N i) [i + 1 ..< N]) (i # is) P ! (a * N + b)
        = fold (\<lambda>i. fold (symmetrize_cell N i) [i + 1 ..< N]) is ?P1 ! (a * N + b)"
    by simp
  also have "\<dots> = (if (a \<in> set is \<and> a < b) \<or> (b \<in> set is \<and> b < a)
            then (?P1 ! (a * N + b) + ?P1 ! (b * N + a)) / real (N * 2)
            else ?P1 ! (a * N + b))"
    by (rule ih)
  also have "\<dots> = (if (a \<in> set (i # is) \<and> a < b) \<or> (b \<in> set (i # is) \<and> b < a)
            then (P ! (a * N + b) + P ! (b * N + a)) / real (N * 2)
            else P ! (a * N + b))"
    unfolding ab ba using i(2) Cons.prems(2,3) by auto
  finally show ?case .
qed

lemma symmetrize_nth:
  assumes "length P = N * N" "a < N" "b < N"
  shows "symmetrize N P ! (a * N + b)
         = (if a = b then P ! (a * N + b)
            else (P ! (a * N + b) + P ! (b * N + a)) / real (N * 2))"
proof -
  have "symmetrize N P ! (a * N + b)
         = (if (a \<in> set [0 ..< N] \<and> a < b) \<or> (b \<in> set [0 ..< N] \<and> b < a)
            then (P ! (a * N + b) + P ! (b * N + a)) / real (N * 2)
            else P ! (a * N + b))"
    unfolding symmetrize_def
    by (rule symmetrize_rows_nth [OF assms]) auto
  then show ?thesis
    using assms(2,3) by auto
qed

lemma length_copy_row:
  "copy_row i N pRow neighbors P = Inr P' \<Longrightarrow> length P' = length P"
  by (induction i N pRow neighbors P rule: copy_row.induct) auto

lemma length_calibrate_rows:
  "calibrate_rows N Htarget tol rows i pRow P = Inr P' \<Longrightarrow> length P' = length P"
proof (induction rows arbitrary: i pRow P)
  case Nil
  then show ?case by simp
next
  case (Cons neighbors rows)
  then show ?case
    by (auto simp: Let_def split: sum.splits dest: length_copy_row)
qed

lemma length_calibrate:
  "calibrate nearest' perp tol = Inr P \<Longrightarrow> length P = length nearest' * length nearest'"
proof -
  assume a: "calibrate nearest' perp tol = Inr P"
  then obtain row0 rest where n: "nearest' = row0 # rest"
    by (cases nearest') (auto simp: calibrate_def)
  have "calibrate_rows (length nearest') (ln perp) tol nearest' 0 (replicate (length row0) 0)
          (replicate (length nearest' * length nearest') 0) = Inr P"
    using a unfolding calibrate_def n by (simp only: list.case Let_def zeros_def)
  then have "length P = length (replicate (length nearest' * length nearest') (0::real))"
    by (rule length_calibrate_rows)
  then show ?thesis by simp
qed

text \<open>
  C5. When the calibrator returns, the matrix \<open>P\<close> is symmetric, \<open>P[i,j] = P[j,i]\<close> for all
  \<open>i, j < N\<close>, and every pair \<open>i < j\<close> holds \<open>(P_raw[i,j] + P_raw[j,i]) / (2N)\<close>, where
  \<open>P_raw\<close> is the matrix of the calibrated rows before the symmetrisation loops.
\<close>

theorem nearest2P_symmetric:
  assumes "nearest2P nearest' perp tol = Inr P"
  shows "\<exists>P_raw. calibrate nearest' perp tol = Inr P_raw
           \<and> (\<forall>i < length nearest'. \<forall>j < length nearest'.
                 P ! (i * length nearest' + j) = P ! (j * length nearest' + i))
           \<and> (\<forall>i j. i < j \<and> j < length nearest' \<longrightarrow>
                 P ! (i * length nearest' + j)
                   = (P_raw ! (i * length nearest' + j) + P_raw ! (j * length nearest' + i))
                     / (2 * real (length nearest')))"
proof -
  obtain P_raw where c: "calibrate nearest' perp tol = Inr P_raw"
    and p: "P = symmetrize (length nearest') P_raw"
    using assms by (auto simp: nearest2P_def split: sum.splits)
  have l: "length P_raw = length nearest' * length nearest'"
    using c by (rule length_calibrate)
  have s: "\<forall>i < length nearest'. \<forall>j < length nearest'.
                 P ! (i * length nearest' + j) = P ! (j * length nearest' + i)"
  proof (intro allI impI)
    fix i j
    assume i: "i < length nearest'" and j: "j < length nearest'"
    show "P ! (i * length nearest' + j) = P ! (j * length nearest' + i)"
      unfolding p symmetrize_nth [OF l i j] symmetrize_nth [OF l j i]
      by (cases "i = j") simp_all
  qed
  have v: "\<forall>i j. i < j \<and> j < length nearest' \<longrightarrow>
                 P ! (i * length nearest' + j)
                   = (P_raw ! (i * length nearest' + j) + P_raw ! (j * length nearest' + i))
                     / (2 * real (length nearest'))"
  proof (intro allI impI)
    fix i j
    assume ij: "i < j \<and> j < length nearest'"
    then have i: "i < length nearest'" and j: "j < length nearest'" and ne: "i \<noteq> j"
      by simp_all
    show "P ! (i * length nearest' + j)
            = (P_raw ! (i * length nearest' + j) + P_raw ! (j * length nearest' + i))
              / (2 * real (length nearest'))"
      unfolding p symmetrize_nth [OF l i j] using ne by (simp add: mult.commute)
  qed
  show ?thesis
    using c s v by blast
qed

subsection \<open>The rows of the calibrator\<close>

lemma array_set_take_drop:
  "k \<le> length x \<Longrightarrow> array_set x k v = take k x @ v # drop (Suc k) x"
  by (auto simp: array_set_def upd_conv_take_nth_drop)

lemma kernel_row_eq:
  "k \<le> length pRow \<Longrightarrow>
   kernel_row i beta neighbors k pRow psum
   = (take k pRow @ map (raw_pij i beta) neighbors @ drop (k + length neighbors) pRow,
      psum + sum_list (map (raw_pij i beta) neighbors))"
proof (induction neighbors arbitrary: k pRow psum)
  case Nil
  then show ?case by simp
next
  case (Cons neighbor rest)
  let ?v = "raw_pij i beta neighbor"
  let ?x = "array_set pRow k ?v"
  have x: "?x = take k pRow @ ?v # drop (Suc k) pRow"
    using Cons.prems by (rule array_set_take_drop)
  have l: "Suc k \<le> length ?x"
    using Cons.prems by (simp add: x)
  have t: "take (Suc k) ?x = take k pRow @ [?v]"
    using Cons.prems by (simp add: x)
  have d: "drop (Suc k + length rest) ?x = drop (k + length (neighbor # rest)) pRow"
    using Cons.prems by (simp add: x add.commute)
  have "kernel_row i beta (neighbor # rest) k pRow psum
        = kernel_row i beta rest (Suc k) ?x (psum + ?v)"
    by (simp add: Let_def)
  also have "\<dots> = (take (Suc k) ?x @ map (raw_pij i beta) rest @ drop (Suc k + length rest) ?x,
                     psum + ?v + sum_list (map (raw_pij i beta) rest))"
    by (rule Cons.IH [OF l])
  also have "\<dots> = (take k pRow @ map (raw_pij i beta) (neighbor # rest)
                       @ drop (k + length (neighbor # rest)) pRow,
                     psum + sum_list (map (raw_pij i beta) (neighbor # rest)))"
    unfolding t d by simp
  finally show ?case .
qed

lemma normalize_row_fst:
  "fst (normalize_row psum ps Hhere) = map (\<lambda>p. p / psum) ps"
  by (induction ps arbitrary: Hhere) (simp_all add: Let_def case_prod_beta)

lemma trial_row_fst:
  assumes "length pRow \<le> length neighbors"
  shows "fst (trial_row i neighbors beta pRow) = normalized_row i beta neighbors"
  using assms
  by (simp add: trial_row_def kernel_row_eq normalize_row_fst normalized_row_def o_def)

lemma length_normalized_row: "length (normalized_row i beta neighbors) = length neighbors"
  by (simp add: normalized_row_def)

lemma search_beta_normalized:
  "length pRow \<le> length neighbors \<Longrightarrow>
   \<exists>beta'. search_beta i neighbors Htarget tol betaMin betaMax beta numTries pRow
            = normalized_row i beta' neighbors"
proof (induction i neighbors Htarget tol betaMin betaMax beta numTries pRow
       rule: search_beta.induct)
  case (1 i neighbors Htarget tol betaMin betaMax beta numTries pRow)
  obtain pRow' Hhere where t: "trial_row i neighbors beta pRow = (pRow', Hhere)"
    by (cases "trial_row i neighbors beta pRow")
  obtain betaMin' betaMax' beta' where a:
    "adjust_beta Hhere Htarget betaMin betaMax beta = (betaMin', betaMax', beta')"
    by (cases "adjust_beta Hhere Htarget betaMin betaMax beta")
  have p: "pRow' = normalized_row i beta neighbors"
    using trial_row_fst [OF "1.prems", of i beta] t by simp
  show ?case
  proof (cases "numTries + 1 \<ge> maxTries \<or> \<bar>Hhere - Htarget\<bar> < tol")
    case True
    then have "search_beta i neighbors Htarget tol betaMin betaMax beta numTries pRow = pRow'"
      by (subst search_beta.simps) (simp add: t a)
    then show ?thesis using p by blast
  next
    case False
    then have "search_beta i neighbors Htarget tol betaMin betaMax beta numTries pRow
               = search_beta i neighbors Htarget tol betaMin' betaMax' beta' (numTries + 1) pRow'"
      by (subst search_beta.simps) (simp add: t a)
    moreover have "\<exists>b. search_beta i neighbors Htarget tol betaMin' betaMax' beta' (numTries + 1) pRow'
               = normalized_row i b neighbors"
      using "1.IH" [OF refl t [symmetric] refl a [symmetric] refl refl False]
      by (simp add: p length_normalized_row)
    ultimately show ?thesis by simp
  qed
qed

lemma raw_pij_pos: "0 < raw_pij i beta neighbor"
  by (simp add: raw_pij_def MIN_POSSIBLE_PROB_def Let_def max_def)

lemma search_beta_const:
  assumes "\<And>b. normalized_row i b neighbors = r" and "length pRow \<le> length neighbors"
  shows "search_beta i neighbors Htarget tol betaMin betaMax beta numTries pRow = r"
  using search_beta_normalized [OF assms(2), of i Htarget tol betaMin betaMax beta numTries] assms(1)
  by auto

lemma normalized_row_single: "normalized_row i b [neighbor] = [1]"
  using raw_pij_pos [of i b neighbor] by (simp add: normalized_row_def)

lemma calibrate_two_points:
  "calibrate [[\<lparr>index = 1, dist = 1\<rparr>], [\<lparr>index = 0, dist = 1\<rparr>]] 30 (1 / 10 ^ 4) = Inr [0, 1, 1, 0]"
  by (simp add: calibrate_def zeros_def Let_def search_beta_const [OF normalized_row_single] numeral_eq_Suc)

lemma nearest2P_two_points:
  "nearest2P [[\<lparr>index = 1, dist = 1\<rparr>], [\<lparr>index = 0, dist = 1\<rparr>]] 30 (1 / 10 ^ 4)
   = Inr [0, 1 / 2, 1 / 2, 0]"
  unfolding nearest2P_def calibrate_two_points
  by (simp add: symmetrize_def symmetrize_cell_def upt2 Let_def)

lemma normalized_row_duplicate:
  "normalized_row i b [\<lparr>index = j, dist = 0\<rparr>, \<lparr>index = j, dist = 0\<rparr>] = [1 / 2, 1 / 2]"
  by (simp add: normalized_row_def raw_pij_def MIN_POSSIBLE_PROB_def Let_def)

lemma calibrate_duplicates:
  "calibrate [[\<lparr>index = 1, dist = 0\<rparr>, \<lparr>index = 1, dist = 0\<rparr>],
              [\<lparr>index = 2, dist = 0\<rparr>, \<lparr>index = 2, dist = 0\<rparr>],
              [\<lparr>index = 0, dist = 0\<rparr>, \<lparr>index = 0, dist = 0\<rparr>]] 30 (1 / 10 ^ 4)
   = Inr [0, 1 / 2, 0, 0, 0, 1 / 2, 1 / 2, 0, 0]"
  by (simp add: calibrate_def zeros_def Let_def search_beta_const [OF normalized_row_duplicate] numeral_eq_Suc)

subsection \<open>The mass of the probability matrix\<close>

lemma sum_list_update_real:
  fixes xs :: "real list"
  assumes "k < length xs"
  shows "sum_list (xs[k := v]) = sum_list xs - xs ! k + v"
proof -
  have a: "xs[k := v] = take k xs @ v # drop (Suc k) xs"
    using assms by (rule upd_conv_take_nth_drop)
  have b: "xs = take k xs @ xs ! k # drop (Suc k) xs"
    using assms by (rule id_take_nth_drop)
  have "sum_list xs = sum_list (take k xs) + xs ! k + sum_list (drop (Suc k) xs)"
    by (subst b) simp
  moreover have "sum_list (xs[k := v]) = sum_list (take k xs) + v + sum_list (drop (Suc k) xs)"
    by (subst a) simp
  ultimately show ?thesis by simp
qed

lemma sum_list_map_divide:
  fixes f :: "'a \<Rightarrow> real"
  shows "sum_list (map (\<lambda>x. f x / c) xs) = sum_list (map f xs) / c"
  by (induction xs) (simp_all add: add_divide_distrib)

lemma sum_list_raw_pos:
  "neighbors \<noteq> [] \<Longrightarrow> 0 < sum_list (map (raw_pij i beta) neighbors)"
proof (induction neighbors)
  case Nil
  then show ?case by simp
next
  case (Cons neighbor rest)
  have "0 \<le> sum_list (map (raw_pij i beta) rest)"
    by (rule sum_list_nonneg) (auto simp: less_imp_le raw_pij_pos)
  then show ?case
    using raw_pij_pos [of i beta neighbor] by simp
qed

lemma sum_list_normalized_row:
  "neighbors \<noteq> [] \<Longrightarrow> sum_list (normalized_row i beta neighbors) = 1"
  using sum_list_raw_pos [of neighbors i beta]
  by (simp add: normalized_row_def sum_list_map_divide)

lemma sum_list_cells:
  fixes xs :: "real list"
  assumes "length xs = N * N"
  shows "sum_list xs = (\<Sum>a < N. \<Sum>b < N. xs ! (a * N + b))"
proof -
  have "sum_list xs = (\<Sum>k < N * N. xs ! k)"
    using assms by (simp add: sum_list_sum_nth atLeast0LessThan)
  also have "\<dots> = (\<Sum>a < N. sum (\<lambda>k. xs ! k) {a * N ..< a * N + N})"
    by (rule sum.nat_group [symmetric])
  also have "\<dots> = (\<Sum>a < N. \<Sum>b < N. xs ! (a * N + b))"
  proof (rule sum.cong [OF refl])
    fix a
    have "sum (\<lambda>k. xs ! k) {0 + a * N ..< N + a * N} = sum (\<lambda>b. xs ! (b + a * N)) {0 ..< N}"
      by (rule sum.shift_bounds_nat_ivl)
    then show "sum (\<lambda>k. xs ! k) {a * N ..< a * N + N} = (\<Sum>b < N. xs ! (a * N + b))"
      by (simp add: add.commute atLeast0LessThan)
  qed
  finally show ?thesis .
qed

lemma sum_list_symmetrize:
  assumes "length P = N * N" and "\<forall>a < N. P ! (a * N + a) = 0"
  shows "sum_list (symmetrize N P) = sum_list P / real N"
proof -
  have c: "\<And>a b. a < N \<Longrightarrow> b < N \<Longrightarrow>
             symmetrize N P ! (a * N + b) = (P ! (a * N + b) + P ! (b * N + a)) / real (N * 2)"
    using assms(2) by (simp add: symmetrize_nth [OF assms(1)])
  have "sum_list (symmetrize N P) = (\<Sum>a < N. \<Sum>b < N. symmetrize N P ! (a * N + b))"
    by (rule sum_list_cells) (simp add: length_symmetrize assms(1))
  also have "\<dots> = (\<Sum>a < N. \<Sum>b < N. (P ! (a * N + b) + P ! (b * N + a)) / real (N * 2))"
    by (intro sum.cong refl) (simp add: c)
  also have "\<dots> = ((\<Sum>a < N. \<Sum>b < N. P ! (a * N + b)) + (\<Sum>a < N. \<Sum>b < N. P ! (b * N + a)))
                   / real (N * 2)"
    by (simp add: sum.distrib sum_divide_distrib add_divide_distrib)
  also have "(\<Sum>a < N. \<Sum>b < N. P ! (b * N + a)) = (\<Sum>a < N. \<Sum>b < N. P ! (a * N + b))"
    by (rule sum.swap)
  also have "(\<Sum>a < N. \<Sum>b < N. P ! (a * N + b)) = sum_list P"
    by (rule sum_list_cells [OF assms(1), symmetric])
  finally show ?thesis by simp
qed


lemma copy_row_sum:
  assumes "length pRow = length neighbors" and "length P = N * N" and "i < N"
    and "distinct (map index neighbors)"
    and "\<forall>neighbor \<in> set neighbors. index neighbor < N \<and> index neighbor \<noteq> i"
    and "\<forall>neighbor \<in> set neighbors. P ! (i * N + index neighbor) = 0"
  shows "\<exists>P'. copy_row i N pRow neighbors P = Inr P' \<and> length P' = N * N
              \<and> sum_list P' = sum_list P + sum_list pRow
              \<and> (\<forall>a < N. \<forall>b < N. a \<noteq> i \<longrightarrow> P' ! (a * N + b) = P ! (a * N + b))
              \<and> P' ! (i * N + i) = P ! (i * N + i)"
  using assms
proof (induction pRow neighbors arbitrary: P rule: list_induct2)
  case Nil
  then show ?case by simp
next
  case (Cons pij pRest neighbor rest)
  define k where "k = i * N + index neighbor"
  let ?P1 = "P[k := pij]"
  have j: "index neighbor < N" "index neighbor \<noteq> i"
    using Cons.prems(4) by simp_all
  have k: "k < length P"
    unfolding k_def using Cons.prems(1,2) j(1) cell_index_less by simp
  have z: "P ! k = 0"
    unfolding k_def using Cons.prems(5) by simp
  have other: "\<And>a b. a < N \<Longrightarrow> b < N \<Longrightarrow> (a, b) \<noteq> (i, index neighbor) \<Longrightarrow> ?P1 ! (a * N + b) = P ! (a * N + b)"
  proof -
    fix a b
    assume a: "a < N" and b: "b < N" and ne: "(a, b) \<noteq> (i, index neighbor)"
    have "k \<noteq> a * N + b"
      unfolding k_def using cell_index_inj [of "index neighbor" N b i a] j(1) b ne by auto
    then show "?P1 ! (a * N + b) = P ! (a * N + b)" by simp
  qed
  have l1: "length ?P1 = N * N"
    using Cons.prems(1) by simp
  have d1: "distinct (map index rest)"
    using Cons.prems(3) by simp
  have r1: "\<forall>neighbor \<in> set rest. index neighbor < N \<and> index neighbor \<noteq> i"
    using Cons.prems(4) by simp
  have z1: "\<forall>neighbor' \<in> set rest. ?P1 ! (i * N + index neighbor') = 0"
  proof
    fix neighbor'
    assume m: "neighbor' \<in> set rest"
    have "index neighbor' \<in> index ` set rest"
      using m by simp
    then have "index neighbor' \<noteq> index neighbor"
      using Cons.prems(3) by auto
    then have "?P1 ! (i * N + index neighbor') = P ! (i * N + index neighbor')"
      using other [of i "index neighbor'"] Cons.prems(2) r1 m by simp
    then show "?P1 ! (i * N + index neighbor') = 0"
      using Cons.prems(5) m by simp
  qed
  obtain P' where p: "copy_row i N pRest rest ?P1 = Inr P'" "length P' = N * N"
      "sum_list P' = sum_list ?P1 + sum_list pRest"
      "\<forall>a < N. \<forall>b < N. a \<noteq> i \<longrightarrow> P' ! (a * N + b) = ?P1 ! (a * N + b)"
      "P' ! (i * N + i) = ?P1 ! (i * N + i)"
    using Cons.IH [OF l1 Cons.prems(2) d1 r1 z1] by blast
  have c: "copy_row i N (pij # pRest) (neighbor # rest) P = Inr P'"
    using p(1) by (simp add: k_def)
  have s: "sum_list P' = sum_list P + sum_list (pij # pRest)"
    using p(3) sum_list_update_real [OF k, of pij] z by simp
  have o: "\<forall>a < N. \<forall>b < N. a \<noteq> i \<longrightarrow> P' ! (a * N + b) = P ! (a * N + b)"
    using p(4) other by simp
  have g: "P' ! (i * N + i) = P ! (i * N + i)"
    using p(5) other [of i i] Cons.prems(2) j(2) by simp
  show ?case
    using c p(2) s o g by blast
qed

lemma calibrate_rows_sum:
  assumes "\<forall>k < length rows. length (rows ! k) = K \<and> distinct (map index (rows ! k))
             \<and> (\<forall>neighbor \<in> set (rows ! k). index neighbor < N \<and> index neighbor \<noteq> i + k)"
    and "1 \<le> K" and "length pRow = K" and "length P = N * N" and "i + length rows \<le> N"
    and "\<forall>a b. i \<le> a \<and> a < N \<and> b < N \<longrightarrow> P ! (a * N + b) = 0"
  shows "\<exists>P'. calibrate_rows N Htarget tol rows i pRow P = Inr P' \<and> length P' = N * N
              \<and> sum_list P' = sum_list P + real (length rows)
              \<and> (\<forall>a < N. P' ! (a * N + a) = P ! (a * N + a))"
  using assms
proof (induction rows arbitrary: i pRow P)
  case Nil
  then show ?case by simp
next
  case (Cons neighbors rest)
  have row: "length neighbors = K" "distinct (map index neighbors)"
      "\<forall>neighbor \<in> set neighbors. index neighbor < N \<and> index neighbor \<noteq> i"
    using Cons.prems(1) by force+
  have i: "i < N"
    using Cons.prems(5) by simp
  obtain beta' where b: "search_beta i neighbors Htarget tol None None 1 0 pRow
                          = normalized_row i beta' neighbors"
    using search_beta_normalized [of pRow neighbors i Htarget tol None None 1 0]
      Cons.prems(3) row(1) by auto
  let ?pRow' = "normalized_row i beta' neighbors"
  have ne: "neighbors \<noteq> []"
    using row(1) Cons.prems(2) by auto
  have z: "\<forall>neighbor \<in> set neighbors. P ! (i * N + index neighbor) = 0"
    using Cons.prems(6) row(3) i by simp
  obtain P1 where p1: "copy_row i N ?pRow' neighbors P = Inr P1" "length P1 = N * N"
      "sum_list P1 = sum_list P + sum_list ?pRow'"
      "\<forall>a < N. \<forall>b < N. a \<noteq> i \<longrightarrow> P1 ! (a * N + b) = P ! (a * N + b)"
      "P1 ! (i * N + i) = P ! (i * N + i)"
    using copy_row_sum [OF length_normalized_row Cons.prems(4) i row(2) row(3) z] by blast
  have rest: "\<forall>k < length rest. length (rest ! k) = K \<and> distinct (map index (rest ! k))
             \<and> (\<forall>neighbor \<in> set (rest ! k). index neighbor < N \<and> index neighbor \<noteq> Suc i + k)"
  proof (intro allI impI)
    fix k
    assume "k < length rest"
    then have "Suc k < length (neighbors # rest)" by simp
    then show "length (rest ! k) = K \<and> distinct (map index (rest ! k))
             \<and> (\<forall>neighbor \<in> set (rest ! k). index neighbor < N \<and> index neighbor \<noteq> Suc i + k)"
      using Cons.prems(1) [rule_format, of "Suc k"] by simp
  qed
  have lp: "length ?pRow' = K"
    using row(1) by (simp add: length_normalized_row)
  have bound: "Suc i + length rest \<le> N"
    using Cons.prems(5) by simp
  have zero: "\<forall>a b. Suc i \<le> a \<and> a < N \<and> b < N \<longrightarrow> P1 ! (a * N + b) = 0"
    using p1(4) Cons.prems(6) by auto
  obtain P' where p': "calibrate_rows N Htarget tol rest (Suc i) ?pRow' P1 = Inr P'"
      "length P' = N * N" "sum_list P' = sum_list P1 + real (length rest)"
      "\<forall>a < N. P' ! (a * N + a) = P1 ! (a * N + a)"
    using Cons.IH [OF rest Cons.prems(2) lp p1(2) bound zero] by blast
  have c: "calibrate_rows N Htarget tol (neighbors # rest) i pRow P = Inr P'"
    by (simp add: b p1(1) p'(1))
  have s: "sum_list P' = sum_list P + real (length (neighbors # rest))"
    using p'(3) p1(3) sum_list_normalized_row [OF ne, of i beta'] by simp
  have d: "\<forall>a < N. P' ! (a * N + a) = P ! (a * N + a)"
  proof (intro allI impI)
    fix a
    assume a: "a < N"
    show "P' ! (a * N + a) = P ! (a * N + a)"
      using p'(4) p1(4) p1(5) a by (cases "a = i") simp_all
  qed
  show ?case
    using c p'(2) s d by blast
qed

text \<open>
  C6 (amended). For every kNN input with \<open>N \<ge> 1\<close>, the same number \<open>K \<ge> 1\<close> of neighbors
  in every row and every neighbor index in \<open>[0, N)\<close>, in which no row lists an index twice
  and no row lists its own point, the calibrator returns a matrix whose entries sum to 1
  (exactly, in real arithmetic, hence within \<open>1e-9\<close>).
\<close>

theorem nearest2P_mass:
  assumes "nearest' \<noteq> []" and "1 \<le> K"
    and "\<forall>i < length nearest'. length (nearest' ! i) = K \<and> distinct (map index (nearest' ! i))
           \<and> (\<forall>neighbor \<in> set (nearest' ! i). index neighbor < length nearest' \<and> index neighbor \<noteq> i)"
  shows "\<exists>P. nearest2P nearest' perp tol = Inr P \<and> sum_list P = 1 \<and> \<bar>sum_list P - 1\<bar> \<le> 1 / 10 ^ 9"
proof -
  let ?N = "length nearest'"
  obtain row0 rest where n: "nearest' = row0 # rest"
    using assms(1) by (cases nearest') auto
  have k0: "length row0 = K"
    using assms(3) [rule_format, of 0] n by simp
  have rows: "\<forall>k < length nearest'. length (nearest' ! k) = K \<and> distinct (map index (nearest' ! k))
           \<and> (\<forall>neighbor \<in> set (nearest' ! k). index neighbor < ?N \<and> index neighbor \<noteq> 0 + k)"
    using assms(3) by simp
  obtain P_raw where r: "calibrate_rows ?N (ln perp) tol nearest' 0 (replicate K 0) (replicate (?N * ?N) 0) = Inr P_raw"
      "length P_raw = ?N * ?N" "sum_list P_raw = sum_list (replicate (?N * ?N) (0::real)) + real ?N"
      "\<forall>a < ?N. P_raw ! (a * ?N + a) = replicate (?N * ?N) (0::real) ! (a * ?N + a)"
    using calibrate_rows_sum [OF rows assms(2), of "replicate K 0" "replicate (?N * ?N) 0" "ln perp" tol]
      cell_index_less by auto
  have c: "calibrate nearest' perp tol = Inr P_raw"
    using r(1) k0 unfolding calibrate_def n by (simp only: list.case Let_def zeros_def)
  have s: "sum_list P_raw = real ?N"
    using r(3) by (simp add: sum_list_replicate)
  have d: "\<forall>a < ?N. P_raw ! (a * ?N + a) = 0"
    using r(4) cell_index_less by simp
  have "sum_list (symmetrize ?N P_raw) = sum_list P_raw / real ?N"
    using sum_list_symmetrize [OF r(2) d] .
  then have m: "sum_list (symmetrize ?N P_raw) = 1"
    using s assms(1) by simp
  have "nearest2P nearest' perp tol = Inr (symmetrize ?N P_raw)"
    by (simp add: nearest2P_def c)
  then show ?thesis
    using m by simp
qed

theorem nearest2P_mass_witness:
  "[[\<lparr>index = 1, dist = 1\<rparr>], [\<lparr>index = 0, dist = 1\<rparr>]] \<noteq> []
   \<and> nearest2P [[\<lparr>index = 1, dist = 1\<rparr>], [\<lparr>index = 0, dist = 1\<rparr>]] 30 (1 / 10 ^ 4)
       = Inr [0, 1 / 2, 1 / 2, 0]
   \<and> sum_list [0, 1 / 2, 1 / 2, 0 :: real] = 1"
proof -
  have h: "\<forall>i < length [[\<lparr>index = 1, dist = 1\<rparr>], [\<lparr>index = 0, dist = 1\<rparr>]].
             length ([[\<lparr>index = 1, dist = 1\<rparr>], [\<lparr>index = 0, dist = 1\<rparr>]] ! i) = 1
             \<and> distinct (map index ([[\<lparr>index = 1, dist = 1\<rparr>], [\<lparr>index = 0, dist = 1\<rparr>]] ! i))
             \<and> (\<forall>neighbor \<in> set ([[\<lparr>index = 1, dist = 1\<rparr>], [\<lparr>index = 0, dist = 1\<rparr>]] ! i).
                   index neighbor < length [[\<lparr>index = 1, dist = 1\<rparr>], [\<lparr>index = 0, dist = 1\<rparr>]]
                   \<and> index neighbor \<noteq> i)"
    by (simp add: less_Suc_eq nth_Cons')
  show ?thesis
    using nearest2P_mass [OF _ _ h, of 30 "1 / 10 ^ 4"] nearest2P_two_points by simp
qed

text \<open>
  C6 as stated fails on an input that satisfies its conditions (\<open>N = 3\<close>, \<open>K = 2\<close>, all
  indices below 3) but lists a neighbor twice in a row: the second write to the same cell
  of \<open>P\<close> replaces the first, and the entries of the returned matrix sum to 1/2.
\<close>

theorem duplicate_neighbors_mass_counterexample:
  "map (map index) [[\<lparr>index = 1, dist = 0\<rparr>, \<lparr>index = 1, dist = 0\<rparr>],
              [\<lparr>index = 2, dist = 0\<rparr>, \<lparr>index = 2, dist = 0\<rparr>],
              [\<lparr>index = 0, dist = 0\<rparr>, \<lparr>index = 0, dist = 0\<rparr>]] = [[1, 1], [2, 2], [0, 0]]
   \<and> nearest2P [[\<lparr>index = 1, dist = 0\<rparr>, \<lparr>index = 1, dist = 0\<rparr>],
              [\<lparr>index = 2, dist = 0\<rparr>, \<lparr>index = 2, dist = 0\<rparr>],
              [\<lparr>index = 0, dist = 0\<rparr>, \<lparr>index = 0, dist = 0\<rparr>]] 30 (1 / 10 ^ 4)
       = Inr [0, 1 / 12, 1 / 12, 1 / 12, 0, 1 / 12, 1 / 12, 1 / 12, 0]
   \<and> sum_list [0, 1 / 12, 1 / 12, 1 / 12, 0, 1 / 12, 1 / 12, 1 / 12, 0 :: real] = 1 / 2
   \<and> \<not> \<bar>sum_list [0, 1 / 12, 1 / 12, 1 / 12, 0, 1 / 12, 1 / 12, 1 / 12, 0 :: real] - 1\<bar> \<le> 1 / 10 ^ 9"
  unfolding nearest2P_def calibrate_duplicates
  by (simp add: symmetrize_def symmetrize_cell_def upt3 upt2 Let_def)

text \<open>The symmetry of \<open>P\<close> on the input with two points that are each other's neighbor.\<close>

theorem nearest2P_symmetric_witness:
  "nearest2P [[\<lparr>index = 1, dist = 1\<rparr>], [\<lparr>index = 0, dist = 1\<rparr>]] 30 (1 / 10 ^ 4)
     = Inr [0, 1 / 2, 1 / 2, 0]
   \<and> calibrate [[\<lparr>index = 1, dist = 1\<rparr>], [\<lparr>index = 0, dist = 1\<rparr>]] 30 (1 / 10 ^ 4)
     = Inr [0, 1, 1, 0]
   \<and> [0, 1 / 2, 1 / 2, 0 :: real] ! (0 * 2 + 1) = [0, 1 / 2, 1 / 2, 0] ! (1 * 2 + 0)
   \<and> [0, 1 / 2, 1 / 2, 0 :: real] ! (0 * 2 + 1)
       = ([0, 1, 1, 0] ! (0 * 2 + 1) + [0, 1, 1, 0] ! (1 * 2 + 0)) / (2 * 2)"
  using nearest2P_symmetric [OF nearest2P_two_points] nearest2P_two_points calibrate_two_points
  by simp

subsection \<open>The update loop of a step\<close>


lemma nth_nth_update:
  assumes "i < length xs" "d < length (xs ! i)"
  shows "(xs[i := (xs ! i)[d := v]]) ! a ! b = (if a = i \<and> b = d then v else xs ! a ! b)"
  using assms by (auto simp: nth_list_update)

lemma update_coord_with_step:
  assumes "engine_shape N D (fst s)" "i < N" "d < D"
  shows "engine_shape N D (fst (update_coord_with m grad i d s))"
    and "gains (fst (update_coord_with m grad i d s)) ! a ! b
         = (if a = i \<and> b = d
            then new_gain (grad ! i ! d) (ystep (fst s) ! i ! d) (gains (fst s) ! i ! d)
            else gains (fst s) ! a ! b)"
    and "\<not> (a = i \<and> b = d) \<Longrightarrow>
         ystep (fst (update_coord_with m grad i d s)) ! a ! b = ystep (fst s) ! a ! b"
    and "a < N \<Longrightarrow> b < D \<Longrightarrow> \<not> (a = i \<and> b = d) \<Longrightarrow>
         emb_Y (fst (update_coord_with m grad i d s)) ! (a * D + b) = emb_Y (fst s) ! (a * D + b)"
    and "snd (update_coord_with m grad i d s)
         = (snd s)[d := snd s ! d + emb_Y (fst (update_coord_with m grad i d s)) ! (i * D + d)]"
proof -
  obtain e ym where s: "s = (e, ym)" by (cases s)
  have sh: "dim e = D" "num_N e = N" "length (emb_Y e) = N * D" "length (gains e) = N"
      "length (gains e ! i) = D" "length (ystep e) = N" "length (ystep e ! i) = D"
      "\<forall>i < N. length (gains e ! i) = D" "\<forall>i < N. length (ystep e ! i) = D"
    using assms(1,2) by (simp_all add: engine_shape_def s)
  show "engine_shape N D (fst (update_coord_with m grad i d s))"
    using sh assms(2,3)
    by (auto simp: engine_shape_def s update_coord_with_def Let_def nth_list_update)
  show "gains (fst (update_coord_with m grad i d s)) ! a ! b
         = (if a = i \<and> b = d
            then new_gain (grad ! i ! d) (ystep (fst s) ! i ! d) (gains (fst s) ! i ! d)
            else gains (fst s) ! a ! b)"
    using sh assms(2,3) by (auto simp: s update_coord_with_def Let_def nth_nth_update)
  show "\<not> (a = i \<and> b = d) \<Longrightarrow>
         ystep (fst (update_coord_with m grad i d s)) ! a ! b = ystep (fst s) ! a ! b"
    using sh assms(2,3) by (auto simp: s update_coord_with_def Let_def nth_nth_update)
  show "a < N \<Longrightarrow> b < D \<Longrightarrow> \<not> (a = i \<and> b = d) \<Longrightarrow>
         emb_Y (fst (update_coord_with m grad i d s)) ! (a * D + b) = emb_Y (fst s) ! (a * D + b)"
  proof -
    assume a: "a < N" and b: "b < D" and ne: "\<not> (a = i \<and> b = d)"
    have "i * D + d \<noteq> a * D + b"
      using cell_index_inj [of d D b i a] assms(3) b ne by auto
    then show ?thesis
      using sh by (simp add: s update_coord_with_def Let_def)
  qed
  show "snd (update_coord_with m grad i d s)
         = (snd s)[d := snd s ! d + emb_Y (fst (update_coord_with m grad i d s)) ! (i * D + d)]"
    using sh by (simp add: s update_coord_with_def Let_def)
qed


lemma cells_updated_empty:
  "engine_shape N D (fst s) \<Longrightarrow> cells_updated N D grad {} s s"
  by (simp add: cells_updated_def)

lemma cells_updated_single:
  assumes "engine_shape N D (fst s)" "i < N" "d < D"
  shows "cells_updated N D grad {(i, d)} s (update_coord_with m grad i d s)"
proof -
  let ?s1 = "update_coord_with m grad i d s"
  note st = update_coord_with_step [OF assms, where m = m and grad = grad]
  have y: "\<forall>b < length (snd s).
            snd ?s1 ! b = snd s ! b + (\<Sum>a \<in> {a. (a, b) \<in> {(i, d)}}. emb_Y (fst ?s1) ! (a * D + b))"
  proof (intro allI impI)
    fix b
    assume b: "b < length (snd s)"
    show "snd ?s1 ! b = snd s ! b + (\<Sum>a \<in> {a. (a, b) \<in> {(i, d)}}. emb_Y (fst ?s1) ! (a * D + b))"
    proof (cases "b = d")
      case True
      have "{a. (a, b) \<in> {(i, d)}} = {i}"
        using True by auto
      then show ?thesis
        using b True by (subst st(5)) simp
    next
      case False
      have "{a. (a, b) \<in> {(i, d)}} = {}"
        using False by auto
      then show ?thesis
        using b False by (subst st(5)) simp
    qed
  qed
  have l: "length (snd ?s1) = length (snd s)"
    by (subst st(5)) simp
  show ?thesis
    unfolding cells_updated_def
    using st(1) st(2) st(3) st(4) l y by auto
qed

lemma cells_updated_trans:
  assumes "cells_updated N D grad C1 s s1" and "cells_updated N D grad C2 s1 s2"
    and "C1 \<inter> C2 = {}" and "C1 \<subseteq> {..< N} \<times> {..< D}" and "C2 \<subseteq> {..< N} \<times> {..< D}"
  shows "cells_updated N D grad (C1 \<union> C2) s s2"
proof -
  note a = assms(1) [unfolded cells_updated_def]
  note b = assms(2) [unfolded cells_updated_def]
  have g: "\<forall>a b. gains (fst s2) ! a ! b
                 = (if (a, b) \<in> C1 \<union> C2
                    then new_gain (grad ! a ! b) (ystep (fst s) ! a ! b) (gains (fst s) ! a ! b)
                    else gains (fst s) ! a ! b)"
    using a b assms(3) by auto
  have t: "\<forall>a b. (a, b) \<notin> C1 \<union> C2 \<longrightarrow> ystep (fst s2) ! a ! b = ystep (fst s) ! a ! b"
    using a b by auto
  have y: "\<forall>a b. a < N \<and> b < D \<and> (a, b) \<notin> C1 \<union> C2 \<longrightarrow>
                 emb_Y (fst s2) ! (a * D + b) = emb_Y (fst s) ! (a * D + b)"
    using a b by auto
  have l: "length (snd s2) = length (snd s)"
    using a b by simp
  have m: "\<forall>b < length (snd s).
            snd s2 ! b = snd s ! b + (\<Sum>a \<in> {a. (a, b) \<in> C1 \<union> C2}. emb_Y (fst s2) ! (a * D + b))"
  proof (intro allI impI)
    fix c
    assume c: "c < length (snd s)"
    let ?A1 = "{a. (a, c) \<in> C1}" and ?A2 = "{a. (a, c) \<in> C2}"
    have f: "finite ?A1" "finite ?A2"
      using assms(4,5) by (auto intro: finite_subset [where B = "{..< N}"])
    have dj: "?A1 \<inter> ?A2 = {}"
      using assms(3) by auto
    have u: "{a. (a, c) \<in> C1 \<union> C2} = ?A1 \<union> ?A2"
      by auto
    have keep: "(\<Sum>a \<in> ?A1. emb_Y (fst s2) ! (a * D + c)) = (\<Sum>a \<in> ?A1. emb_Y (fst s1) ! (a * D + c))"
    proof (rule sum.cong [OF refl])
      fix x
      assume x: "x \<in> ?A1"
      then have "x < N" "c < D" "(x, c) \<notin> C2"
        using assms(3,4) by auto
      then show "emb_Y (fst s2) ! (x * D + c) = emb_Y (fst s1) ! (x * D + c)"
        using b by simp
    qed
    have "snd s2 ! c = snd s1 ! c + (\<Sum>a \<in> ?A2. emb_Y (fst s2) ! (a * D + c))"
      using b a c by simp
    also have "snd s1 ! c = snd s ! c + (\<Sum>a \<in> ?A1. emb_Y (fst s1) ! (a * D + c))"
      using a c by simp
    finally show "snd s2 ! c = snd s ! c + (\<Sum>a \<in> {a. (a, c) \<in> C1 \<union> C2}. emb_Y (fst s2) ! (a * D + c))"
      unfolding u by (simp add: sum.union_disjoint [OF f dj] keep)
  qed
  show ?thesis
    unfolding cells_updated_def using b g t y l m by blast
qed

lemma cells_updated_row:
  assumes "engine_shape N D (fst s)" "i < N" "distinct ds" "\<forall>d \<in> set ds. d < D"
  shows "cells_updated N D grad ({i} \<times> set ds) s (fold (update_coord_with m grad i) ds s)"
  using assms
proof (induction ds arbitrary: s)
  case Nil
  then show ?case by (simp add: cells_updated_empty)
next
  case (Cons d ds)
  let ?s1 = "update_coord_with m grad i d s"
  have d: "d < D" "d \<notin> set ds" "distinct ds" "\<forall>d \<in> set ds. d < D"
    using Cons.prems by auto
  have one: "cells_updated N D grad {(i, d)} s ?s1"
    using cells_updated_single [OF Cons.prems(1,2) d(1)] .
  have sh: "engine_shape N D (fst ?s1)"
    using one by (simp add: cells_updated_def)
  have rest: "cells_updated N D grad ({i} \<times> set ds) ?s1 (fold (update_coord_with m grad i) ds ?s1)"
    using Cons.IH [OF sh Cons.prems(2) d(3) d(4)] .
  have "cells_updated N D grad ({(i, d)} \<union> {i} \<times> set ds) s (fold (update_coord_with m grad i) ds ?s1)"
    using cells_updated_trans [OF one rest] d Cons.prems(2) by auto
  moreover have "{(i, d)} \<union> {i} \<times> set ds = {i} \<times> set (d # ds)"
    by auto
  ultimately show ?case by simp
qed

lemma cells_updated_rows:
  assumes "engine_shape N D (fst s)" "distinct is" "\<forall>i \<in> set is. i < N"
  shows "cells_updated N D grad (set is \<times> {..< D}) s
           (fold (\<lambda>i. fold (update_coord_with m grad i) [0 ..< D]) is s)"
  using assms
proof (induction "is" arbitrary: s)
  case Nil
  then show ?case by (simp add: cells_updated_empty)
next
  case (Cons i "is")
  let ?s1 = "fold (update_coord_with m grad i) [0 ..< D] s"
  have i: "i < N" "i \<notin> set is" "distinct is" "\<forall>i \<in> set is. i < N"
    using Cons.prems by auto
  have "cells_updated N D grad ({i} \<times> set [0 ..< D]) s ?s1"
    by (rule cells_updated_row [OF Cons.prems(1) i(1)]) simp_all
  then have one: "cells_updated N D grad ({i} \<times> {..< D}) s ?s1"
    by (simp add: atLeast0LessThan)
  have sh: "engine_shape N D (fst ?s1)"
    using one by (simp add: cells_updated_def)
  have rest: "cells_updated N D grad (set is \<times> {..< D}) ?s1
                (fold (\<lambda>i. fold (update_coord_with m grad i) [0 ..< D]) is ?s1)"
    using Cons.IH [OF sh i(3) i(4)] .
  have "cells_updated N D grad ({i} \<times> {..< D} \<union> set is \<times> {..< D}) s
                (fold (\<lambda>i. fold (update_coord_with m grad i) [0 ..< D]) is ?s1)"
    using cells_updated_trans [OF one rest] i by auto
  moreover have "{i} \<times> {..< D} \<union> set is \<times> {..< D} = set (i # is) \<times> {..< D}"
    by auto
  ultimately show ?case by simp
qed


lemma length_recenter_coord:
  "length (emb_Y (recenter_coord ym M i d this)) = length (emb_Y this)"
  by (simp add: recenter_coord_def)




lemma update_pass_with_cells:
  assumes "wf_engine this"
  shows "cells_updated (num_N this) (dim this) grad ({..< num_N this} \<times> {..< dim this})
           (this, if dim this = 3 then [0, 0, 0] else [0, 0]) (update_pass_with m grad this)"
proof -
  have sh: "engine_shape (num_N this) (dim this) (fst (this, if dim this = 3 then [0, 0, 0] else [0, 0 :: real]))"
    using assms by (simp add: wf_engine_def)
  have "cells_updated (num_N this) (dim this) grad (set [0 ..< num_N this] \<times> {..< dim this})
           (this, if dim this = 3 then [0, 0, 0] else [0, 0]) (update_pass_with m grad this)"
    unfolding update_pass_with_def
    by (rule cells_updated_rows [OF sh]) simp_all
  then show ?thesis
    by (simp add: atLeast0LessThan)
qed

lemma new_gain_floor: "1 / 100 \<le> new_gain gid sid gainid"
  by (simp add: new_gain_def Let_def)

lemma length_fold_recenter_coord:
  "length (emb_Y (fold (recenter_coord ym M i) ds this)) = length (emb_Y this)"
  by (induction ds arbitrary: this) (simp_all add: length_recenter_coord)

lemma length_recenter:
  "length (emb_Y (recenter ym M this)) = length (emb_Y this)"
proof -
  have "length (emb_Y (fold (\<lambda>i this'. fold (recenter_coord ym M i) [0 ..< dim this'] this') is this))
        = length (emb_Y this)" for "is"
    by (induction "is" arbitrary: this) (simp_all add: length_fold_recenter_coord)
  then show ?thesis
    by (simp add: recenter_def)
qed

lemma step_unfold:
  assumes "wf_engine this" and "step SPTree this = Inr this'"
  obtains grad momval this1 ymean where
    "costGrad SPTree (this\<lparr>iter := iter this + 1\<rparr>) (emb_Y this) = Inr grad"
    "update_pass_with momval grad (this\<lparr>iter := iter this + 1\<rparr>) = (this1, ymean)"
    "this' = recenter ymean (num_N this) this1"
    "cells_updated (num_N this) (dim this) grad ({..< num_N this} \<times> {..< dim this})
           (this\<lparr>iter := iter this + 1\<rparr>, if dim this = 3 then [0, 0, 0] else [0, 0]) (this1, ymean)"
proof -
  let ?t0 = "this\<lparr>iter := iter this + 1\<rparr>"
  let ?m = "if iter this + 1 < 250 then 5 / 10 else 8 / 10 :: real"
  let ?a = "if iter this + 1 < 100 then 4 else 1 :: real"
  have w: "wf_engine ?t0"
    using assms(1) by (simp add: wf_engine_def engine_shape_def)
  have s: "step_with SPTree ?m ?a ?t0 = Inr this'"
    using assms(2) by (simp add: step_eq_step_with)
  then obtain grad where g: "costGradA SPTree ?a ?t0 (emb_Y ?t0) = Inr grad"
    by (auto simp: step_with_def split: sum.splits)
  obtain this1 ymean where u: "update_pass_with ?m grad ?t0 = (this1, ymean)"
    by (cases "update_pass_with ?m grad ?t0")
  have r: "this' = recenter ymean (num_N this) this1"
    using s g u by (simp add: step_with_def)
  have c: "costGrad SPTree ?t0 (emb_Y this) = Inr grad"
    using g by (simp add: costGrad_def)
  have k: "cells_updated (num_N this) (dim this) grad ({..< num_N this} \<times> {..< dim this})
           (?t0, if dim this = 3 then [0, 0, 0] else [0, 0]) (this1, ymean)"
    using update_pass_with_cells [OF w, of grad ?m] u by simp
  show ?thesis
    using that [OF c u r k] .
qed

lemma step_wf:
  assumes "wf_engine this" and "step SPTree this = Inr this'"
  shows "wf_engine this' \<and> num_N this' = num_N this \<and> dim this' = dim this"
proof -
  obtain grad momval this1 ymean where
    r: "this' = recenter ymean (num_N this) this1"
    and k: "cells_updated (num_N this) (dim this) grad ({..< num_N this} \<times> {..< dim this})
           (this\<lparr>iter := iter this + 1\<rparr>, if dim this = 3 then [0, 0, 0] else [0, 0]) (this1, ymean)"
    using step_unfold [OF assms] by metis
  have sh: "engine_shape (num_N this) (dim this) this1"
    using k by (simp add: cells_updated_def)
  have l: "length (emb_Y (recenter ymean (num_N this) this1)) = num_N this * dim this"
    using sh by (simp add: engine_shape_def length_recenter)
  show ?thesis
    using sh l assms(1) unfolding r
    by (simp add: wf_engine_def engine_shape_def recenter_fields)
qed


subsection \<open>The gains\<close>

text \<open>
  C4. In a step of an engine with well-formed arrays, for every coordinate \<open>(i, d)\<close> the
  stored gain becomes \<open>gain * 0.8\<close> when the sign of \<open>grad[i][d]\<close> equals the sign of the
  previous step \<open>ystep[i][d]\<close> and \<open>gain + 0.2\<close> otherwise, floored at 0.01; so after the
  step every entry of the gains array is at least 0.01.
\<close>

theorem gain_update_and_floor:
  assumes "wf_engine this" and "step SPTree this = Inr this'"
  shows "\<exists>grad. costGrad SPTree (this\<lparr>iter := iter this + 1\<rparr>) (emb_Y this) = Inr grad
           \<and> (\<forall>i < num_N this. \<forall>d < dim this.
                 gains this' ! i ! d
                   = (let newgain = (if sign (grad ! i ! d) = sign (ystep this ! i ! d)
                                     then gains this ! i ! d * (8 / 10)
                                     else gains this ! i ! d + 2 / 10)
                      in if newgain < 1 / 100 then 1 / 100 else newgain)
                 \<and> 1 / 100 \<le> gains this' ! i ! d)
           \<and> length (gains this') = num_N this
           \<and> (\<forall>row \<in> set (gains this'). length row = dim this \<and> (\<forall>g \<in> set row. 1 / 100 \<le> g))"
proof -
  obtain grad momval this1 ymean where
    c: "costGrad SPTree (this\<lparr>iter := iter this + 1\<rparr>) (emb_Y this) = Inr grad"
    and r: "this' = recenter ymean (num_N this) this1"
    and k: "cells_updated (num_N this) (dim this) grad ({..< num_N this} \<times> {..< dim this})
           (this\<lparr>iter := iter this + 1\<rparr>, if dim this = 3 then [0, 0, 0] else [0, 0]) (this1, ymean)"
    using step_unfold [OF assms] by metis
  have g: "gains this' = gains this1"
    unfolding r by (simp add: recenter_fields)
  have v: "\<And>i d. i < num_N this \<Longrightarrow> d < dim this \<Longrightarrow>
             gains this' ! i ! d
               = new_gain (grad ! i ! d) (ystep this ! i ! d) (gains this ! i ! d)"
    using k unfolding g cells_updated_def by simp
  have sh: "engine_shape (num_N this) (dim this) this1"
    using k by (simp add: cells_updated_def)
  have cells: "\<forall>i < num_N this. \<forall>d < dim this.
                 gains this' ! i ! d
                   = (let newgain = (if sign (grad ! i ! d) = sign (ystep this ! i ! d)
                                     then gains this ! i ! d * (8 / 10)
                                     else gains this ! i ! d + 2 / 10)
                      in if newgain < 1 / 100 then 1 / 100 else newgain)
                 \<and> 1 / 100 \<le> gains this' ! i ! d"
  proof (intro allI impI)
    fix i d
    assume i: "i < num_N this" and d: "d < dim this"
    show "gains this' ! i ! d
                   = (let newgain = (if sign (grad ! i ! d) = sign (ystep this ! i ! d)
                                     then gains this ! i ! d * (8 / 10)
                                     else gains this ! i ! d + 2 / 10)
                      in if newgain < 1 / 100 then 1 / 100 else newgain)
                 \<and> 1 / 100 \<le> gains this' ! i ! d"
      using v [OF i d] new_gain_floor [of "grad ! i ! d" "ystep this ! i ! d" "gains this ! i ! d"]
      by (simp add: new_gain_def)
  qed
  have len: "length (gains this') = num_N this"
    using sh unfolding g by (simp add: engine_shape_def)
  have rows: "\<forall>row \<in> set (gains this'). length row = dim this \<and> (\<forall>g \<in> set row. 1 / 100 \<le> g)"
  proof
    fix row
    assume "row \<in> set (gains this')"
    then obtain i where i: "i < num_N this" "row = gains this' ! i"
      using len by (auto simp: in_set_conv_nth)
    have l: "length row = dim this"
      using sh i unfolding g by (simp add: engine_shape_def)
    have "\<forall>g \<in> set row. 1 / 100 \<le> g"
    proof
      fix x
      assume "x \<in> set row"
      then obtain d where d: "d < dim this" "x = row ! d"
        using l by (auto simp: in_set_conv_nth)
      show "1 / 100 \<le> x"
        using cells i d by simp
    qed
    then show "length row = dim this \<and> (\<forall>g \<in> set row. 1 / 100 \<le> g)"
      using l by simp
  qed
  show ?thesis
    using c cells len rows by blast
qed

subsection \<open>The zero-mean embedding\<close>


subsection \<open>Engines with well-formed arrays\<close>

lemma two_point_engine_wf: "wf_engine (two_point_engine t)"
  by (simp add: wf_engine_def engine_shape_def two_point_engine_def less_Suc_eq numeral_2_eq_2)

theorem gain_update_and_floor_witness:
  "step two_point_tree (two_point_engine 0)
     = Inr ((two_point_engine 1)
              \<lparr>emb_Y := [1741 / 40, 0, - (1741 / 40), 0],
               gains := [[6 / 5, 4 / 5], [6 / 5, 4 / 5]],
               ystep := [[881 / 20, 0], [- 44, 0]]\<rparr>)
   \<and> sign (- 11 / 3) \<noteq> sign (1 / 10) \<and> (6 / 5 :: real) = 1 + 2 / 10
   \<and> sign 0 = sign 0 \<and> (4 / 5 :: real) = 1 * (8 / 10)
   \<and> (1 / 100 :: real) \<le> 6 / 5 \<and> (1 / 100 :: real) \<le> 4 / 5"
  using gain_update_and_floor [OF two_point_engine_wf two_point_step] two_point_step
  by (simp add: sign_def)


lemma length_randnMatrix_loop:
  "randnMatrix_loop R nd i x g pos = Some (y, g', pos') \<Longrightarrow> length y = length x"
proof (induction R nd i x g pos rule: randnMatrix_loop.induct)
  case (1 R nd i x g pos)
  show ?case
  proof (cases "i < nd")
    case True
    then obtain v g1 pos1 where r: "randn R 0 (1 / 10 ^ 4) g pos = Some (v, g1, pos1)"
      and l: "randnMatrix_loop R nd (Suc i) (x[i := v]) g1 pos1 = Some (y, g', pos')"
      using "1.prems" by (subst (asm) randnMatrix_loop.simps) (auto split: option.splits)
    show ?thesis
      using "1.IH" [OF True r refl refl l] by simp
  next
    case False
    then show ?thesis
      using "1.prems" by (subst (asm) randnMatrix_loop.simps) simp
  qed
qed

lemma initSolution_wf:
  assumes "dim this = 2 \<or> dim this = 3" and "initSolution g this = Some (g', this')"
  shows "wf_engine this' \<and> iter this' = 0 \<and> num_N this' = num_N this \<and> dim this' = dim this"
proof -
  obtain y pos' where r: "randnMatrix (num_N this) (dim this) (rng this) g (rng_calls this) = Some (y, g', pos')"
    and t: "this' = this\<lparr>emb_Y := y, rng_calls := pos',
                         gains := arrayofs (num_N this) (dim this) 1,
                         ystep := arrayofs (num_N this) (dim this) 0,
                         iter := 0\<rparr>"
    using assms(2) by (auto simp: initSolution_def split: option.splits)
  have "length y = length (zeros (num_N this * dim this))"
    using r unfolding randnMatrix_def Let_def by (rule length_randnMatrix_loop)
  then have l: "length y = num_N this * dim this"
    by (simp add: zeros_def)
  show ?thesis
    using assms(1) l unfolding t
    by (auto simp: wf_engine_def engine_shape_def arrayofs_def)
qed

lemma initDataDist_wf:
  assumes "TSNE_constructor Math_random opt = Inr this"
    and "initDataDist g this nearest' = Some (Inr (g', this'))"
  shows "wf_engine this' \<and> iter this' = 0 \<and> num_N this' = length nearest'"
proof -
  have d: "dim this = 2 \<or> dim this = 3"
    using assms(1) by (auto simp: TSNE_constructor_def Let_def split: if_splits)
  obtain P where i: "initSolution g (this\<lparr>nearest := nearest', mat_P := P, num_N := length nearest'\<rparr>)
                      = Some (g', this')"
    using assms(2) by (auto simp: initDataDist_def Let_def split: sum.splits option.splits)
  show ?thesis
    using initSolution_wf [OF _ i] d by simp
qed

lemma steps_wf:
  "wf_engine this \<Longrightarrow> steps SPTree n this = Inr this' \<Longrightarrow>
     wf_engine this' \<and> num_N this' = num_N this \<and> dim this' = dim this \<and> iter this' = iter this + n"
proof (induction n arbitrary: this)
  case 0
  then show ?case by simp
next
  case (Suc n)
  obtain this1 where s: "step SPTree this = Inr this1" and r: "steps SPTree n this1 = Inr this'"
    using Suc.prems(2) by (auto split: sum.splits)
  have w: "wf_engine this1 \<and> num_N this1 = num_N this \<and> dim this1 = dim this"
    using step_wf [OF Suc.prems(1) s] .
  have i: "iter this1 = iter this + 1"
    using s step_with_iter [of SPTree _ _ "this\<lparr>iter := iter this + 1\<rparr>" this1]
    by (simp add: step_eq_step_with)
  show ?case
    using Suc.IH [OF _ r] w i by simp
qed

subsection \<open>The module-level cache of the sampler\<close>

lemma gaussRandom_rejected:
  assumes "\<not> return_v g"
    and "r = (2 * R pos - 1) * (2 * R pos - 1) + (2 * R (pos + 1) - 1) * (2 * R (pos + 1) - 1)"
    and "r = 0 \<or> r > 1"
  shows "gaussRandom R g pos = gaussRandom R g (pos + 2)"
  apply (subst gaussRandom.simps)
  using assms(1,3) unfolding Let_def assms(2) [symmetric]
  by simp

lemma gaussRandom_agree:
  assumes "gaussRandom R g1 pos = Some y"
  shows "\<forall>g2. cache_agree g1 g2 \<longrightarrow>
        (\<exists>g2'. gaussRandom R g2 pos = Some (fst y, g2', snd (snd y)) \<and> cache_agree (fst (snd y)) g2')"
proof (rule gaussRandom.raw_induct
    [where P = "\<lambda>R g pos y. \<forall>g2. cache_agree g g2 \<longrightarrow>
        (\<exists>g2'. gaussRandom R g2 pos = Some (fst y, g2', snd (snd y)) \<and> cache_agree (fst (snd y)) g2')",
     OF _ assms])
  fix gaussRandom' :: "(nat \<Rightarrow> real) \<Rightarrow> gauss_cache \<Rightarrow> nat \<Rightarrow> (real \<times> gauss_cache \<times> nat) option"
    and R g pos y
  assume IH: "\<And>R g pos y. gaussRandom' R g pos = Some y \<Longrightarrow>
                \<forall>g2. cache_agree g g2 \<longrightarrow>
                  (\<exists>g2'. gaussRandom R g2 pos = Some (fst y, g2', snd (snd y))
                         \<and> cache_agree (fst (snd y)) g2')"
    and body: "(if return_v g then Some (v_val g, g\<lparr>return_v := False\<rparr>, pos)
      else let u = 2 * R pos - 1; v = 2 * R (pos + 1) - 1; r = u * u + v * v
           in if r = 0 \<or> 1 < r then gaussRandom' R g (pos + 2)
              else let c = sqrt (- 2 * ln r / r)
                   in Some (u * c, g\<lparr>v_val := v * c, return_v := True\<rparr>, pos + 2)) = Some y"
  show "\<forall>g2. cache_agree g g2 \<longrightarrow>
        (\<exists>g2'. gaussRandom R g2 pos = Some (fst y, g2', snd (snd y)) \<and> cache_agree (fst (snd y)) g2')"
  proof (intro allI impI)
    fix g2
    assume a: "cache_agree g g2"
    define r where "r = (2 * R pos - 1) * (2 * R pos - 1) + (2 * R (pos + 1) - 1) * (2 * R (pos + 1) - 1)"
    show "\<exists>g2'. gaussRandom R g2 pos = Some (fst y, g2', snd (snd y)) \<and> cache_agree (fst (snd y)) g2'"
    proof (cases "return_v g")
      case True
      then have y: "y = (v_val g, g\<lparr>return_v := False\<rparr>, pos)"
        using body by simp
      have "gaussRandom R g2 pos = Some (v_val g2, g2\<lparr>return_v := False\<rparr>, pos)"
        using a True by (simp add: gaussRandom_cached cache_agree_def)
      then show ?thesis
        using a True by (simp add: y cache_agree_def)
    next
      case False
      then have f2: "\<not> return_v g2"
        using a by (simp add: cache_agree_def)
      show ?thesis
      proof (cases "r = 0 \<or> r > 1")
        case True
        have "gaussRandom' R g (pos + 2) = Some y"
          using body False True unfolding Let_def r_def by simp
        then obtain g2' where "gaussRandom R g2 (pos + 2) = Some (fst y, g2', snd (snd y))"
            "cache_agree (fst (snd y)) g2'"
          using IH a by blast
        moreover have "gaussRandom R g2 pos = gaussRandom R g2 (pos + 2)"
          using gaussRandom_rejected [OF f2 r_def True] .
        ultimately show ?thesis by simp
      next
        case nr: False
        have y: "y = ((2 * R pos - 1) * sqrt (- 2 * ln r / r),
                      g\<lparr>v_val := (2 * R (pos + 1) - 1) * sqrt (- 2 * ln r / r), return_v := True\<rparr>,
                      pos + 2)"
        proof -
          have "(if return_v g then Some (v_val g, g\<lparr>return_v := False\<rparr>, pos)
                 else if r = 0 \<or> 1 < r then gaussRandom' R g (pos + 2)
                 else Some ((2 * R pos - 1) * sqrt (- 2 * ln r / r),
                            g\<lparr>v_val := (2 * R (pos + 1) - 1) * sqrt (- 2 * ln r / r), return_v := True\<rparr>,
                            pos + 2)) = Some y"
            using body unfolding Let_def r_def .
          then have "Some ((2 * R pos - 1) * sqrt (- 2 * ln r / r),
                            g\<lparr>v_val := (2 * R (pos + 1) - 1) * sqrt (- 2 * ln r / r), return_v := True\<rparr>,
                            pos + 2) = Some y"
            unfolding if_not_P [OF False] if_not_P [OF nr] .
          then show ?thesis by simp
        qed
        have "gaussRandom R g2 pos
              = Some ((2 * R pos - 1) * sqrt (- 2 * ln r / r),
                      g2\<lparr>v_val := (2 * R (pos + 1) - 1) * sqrt (- 2 * ln r / r), return_v := True\<rparr>,
                      pos + 2)"
        proof -
          have "0 \<le> r"
            unfolding r_def by simp
          then have "0 < r" "r \<le> 1"
            using nr by simp_all
          then show ?thesis
            by (rule gaussRandom_accepted [OF f2 r_def])
        qed
        then show ?thesis
          by (simp add: y cache_agree_def)
      qed
    qed
  qed
qed

lemma randn_agree:
  assumes "randn R mu std g1 pos = Some (x, g1', pos')" and "cache_agree g1 g2"
  shows "\<exists>g2'. randn R mu std g2 pos = Some (x, g2', pos') \<and> cache_agree g1' g2'"
proof -
  obtain x0 where g: "gaussRandom R g1 pos = Some (x0, g1', pos')" and x: "x = mu + x0 * std"
    using assms(1) by (auto simp: randn_def split: option.splits)
  obtain g2' where "gaussRandom R g2 pos = Some (x0, g2', pos')" "cache_agree g1' g2'"
    using gaussRandom_agree [OF g] assms(2) by auto
  then show ?thesis
    by (auto simp: randn_def x)
qed

lemma randnMatrix_loop_agree:
  "randnMatrix_loop R nd i x g1 pos = Some (y, g1', pos') \<Longrightarrow>
   \<forall>g2. cache_agree g1 g2 \<longrightarrow>
     (\<exists>g2'. randnMatrix_loop R nd i x g2 pos = Some (y, g2', pos') \<and> cache_agree g1' g2')"
proof (induction R nd i x g1 pos rule: randnMatrix_loop.induct)
  case (1 R nd i x g pos)
  show ?case
  proof (intro allI impI)
    fix g2
    assume a: "cache_agree g g2"
    show "\<exists>g2'. randnMatrix_loop R nd i x g2 pos = Some (y, g2', pos') \<and> cache_agree g1' g2'"
    proof (cases "i < nd")
      case True
      then obtain v ga posa where r: "randn R 0 (1 / 10 ^ 4) g pos = Some (v, ga, posa)"
        and l: "randnMatrix_loop R nd (Suc i) (x[i := v]) ga posa = Some (y, g1', pos')"
        using "1.prems" by (subst (asm) randnMatrix_loop.simps) (auto split: option.splits)
      obtain gb where r2: "randn R 0 (1 / 10 ^ 4) g2 pos = Some (v, gb, posa)" and b: "cache_agree ga gb"
        using randn_agree [OF r a] by blast
      obtain g2' where "randnMatrix_loop R nd (Suc i) (x[i := v]) gb posa = Some (y, g2', pos')"
          "cache_agree g1' g2'"
        using "1.IH" [OF True r refl refl l] b by blast
      then show ?thesis
        using True r2 by (subst randnMatrix_loop.simps) simp
    next
      case False
      then have "y = x \<and> g1' = g \<and> pos' = pos"
        using "1.prems" by (subst (asm) randnMatrix_loop.simps) simp
      then show ?thesis
        using False a by (subst randnMatrix_loop.simps) simp
    qed
  qed
qed

lemma initDataDist_agree:
  assumes "initDataDist g1 this nearest' = Some r1" and "cache_agree g1 g2"
  shows "\<exists>r2. initDataDist g2 this nearest' = Some r2
              \<and> (case r1 of
                    Inl e \<Rightarrow> r2 = Inl e
                  | Inr (g1', this1) \<Rightarrow> (\<exists>g2'. r2 = Inr (g2', this1) \<and> cache_agree g1' g2'))"
proof (cases "nearest2P nearest' (perplexity this) (1 / 10 ^ 4)")
  case (Inl e)
  then show ?thesis
    using assms(1) by (auto simp: initDataDist_def)
next
  case (Inr P)
  let ?t = "this\<lparr>nearest := nearest', mat_P := P, num_N := length nearest'\<rparr>"
  obtain g1' this1 where i: "initSolution g1 ?t = Some (g1', this1)" and r1: "r1 = Inr (g1', this1)"
    using assms(1) Inr by (auto simp: initDataDist_def Let_def split: option.splits)
  obtain y pos' where m: "randnMatrix (num_N ?t) (dim ?t) (rng ?t) g1 (rng_calls ?t) = Some (y, g1', pos')"
    and t1: "this1 = ?t\<lparr>emb_Y := y, rng_calls := pos',
                         gains := arrayofs (num_N ?t) (dim ?t) 1,
                         ystep := arrayofs (num_N ?t) (dim ?t) 0,
                         iter := 0\<rparr>"
    using i by (auto simp: initSolution_def split: option.splits)
  obtain g2' where m2: "randnMatrix (num_N ?t) (dim ?t) (rng ?t) g2 (rng_calls ?t) = Some (y, g2', pos')"
    and b: "cache_agree g1' g2'"
    using randnMatrix_loop_agree [OF m [unfolded randnMatrix_def Let_def]] assms(2)
    unfolding randnMatrix_def Let_def by blast
  have "initSolution g2 ?t = Some (g2', this1)"
    using m2 by (simp add: initSolution_def t1)
  then have "initDataDist g2 this nearest' = Some (Inr (g2', this1))"
    using Inr by (simp add: initDataDist_def)
  then show ?thesis
    using b by (simp add: r1)
qed


text \<open>
  C10 (amended). The cached second draw is module-level state shared by all engines. Two
  engines constructed with identical options and the same generator sequence, fed
  identical kNN input and stepped the same number of times, return identical embeddings
  provided the shared cache holds no pending draw (\<open>return_v\<close> is false) when each of them
  is initialised; a stale \<open>v_val\<close> left by other engines does not matter.
\<close>

theorem empty_cache_determinism:
  assumes "\<not> return_v g1" and "\<not> return_v g2"
  shows "solution_after SPTree n g1 this nearest' = solution_after SPTree n g2 this nearest'"
proof -
  have a12: "cache_agree g1 g2" and a21: "cache_agree g2 g1"
    using assms by (simp_all add: cache_agree_def)
  show ?thesis
  proof (cases "initDataDist g1 this nearest'")
    case None
    have "initDataDist g2 this nearest' = None"
    proof (rule ccontr)
      assume "initDataDist g2 this nearest' \<noteq> None"
      then obtain r2 where "initDataDist g2 this nearest' = Some r2" by auto
      then show False
        using initDataDist_agree [OF _ a21, of this nearest' r2] None by auto
    qed
    then show ?thesis
      using None by (simp add: solution_after_def)
  next
    case (Some r1)
    obtain r2 where r2: "initDataDist g2 this nearest' = Some r2"
      and rel: "case r1 of
                    Inl e \<Rightarrow> r2 = Inl e
                  | Inr (g1', this1) \<Rightarrow> (\<exists>g2'. r2 = Inr (g2', this1) \<and> cache_agree g1' g2')"
      using initDataDist_agree [OF Some a12] by blast
    show ?thesis
      using rel by (cases r1) (auto simp: solution_after_def Some r2)
  qed
qed

theorem empty_cache_determinism_witness:
  "solution_after two_point_tree 1 \<lparr>return_v = False, v_val = 0\<rparr> engine_2d
     [[\<lparr>index = 1, dist = 1\<rparr>], [\<lparr>index = 0, dist = 1\<rparr>]]
   = solution_after two_point_tree 1 \<lparr>return_v = False, v_val = 7\<rparr> engine_2d
     [[\<lparr>index = 1, dist = 1\<rparr>], [\<lparr>index = 0, dist = 1\<rparr>]]"
  using empty_cache_determinism [of "\<lparr>return_v = False, v_val = 0\<rparr>" "\<lparr>return_v = False, v_val = 7\<rparr>"]
  by simp

lemma normalized_row_nil: "normalized_row i b [] = []"
  by (simp add: normalized_row_def)

lemma nearest2P_one_point: "nearest2P [[]] 30 (1 / 10 ^ 4) = Inr [0]"
  by (simp add: nearest2P_def calibrate_def zeros_def Let_def search_beta_const [OF normalized_row_nil]
        symmetrize_def)

lemma arrayofs_small:
  "arrayofs (Suc 0) 3 v = [[v, v, v]]"
  "arrayofs (Suc (Suc 0)) 2 v = [[v, v], [v, v]]"
  by (simp_all add: arrayofs_def)

lemma zeros_3_4: "zeros 3 = [0, 0, 0]" "zeros 4 = [0, 0, 0, 0]"
  by (simp_all add: zeros_def numeral_eq_Suc)

lemma randnMatrix_alternating_3d:
  "randnMatrix (Suc 0) 3 alternating_rng \<lparr>return_v = False, v_val = 0\<rparr> 0
   = Some ([1 / 2 * sqrt (- 2 * ln (1 / 4) / (1 / 4)) * (1 / 10 ^ 4), 0,
            1 / 2 * sqrt (- 2 * ln (1 / 4) / (1 / 4)) * (1 / 10 ^ 4)],
           \<lparr>return_v = True, v_val = 0\<rparr>, 4)"
  by (simp add: randnMatrix_def zeros_3_4 randn_def gaussRandom_cached randnMatrix_loop.simps
        gaussRandom_accepted [where r = "1 / 4"] alternating_rng_def)

lemma randnMatrix_alternating_2d_empty:
  "randnMatrix (Suc (Suc 0)) 2 alternating_rng \<lparr>return_v = False, v_val = 0\<rparr> 0
   = Some ([1 / 2 * sqrt (- 2 * ln (1 / 4) / (1 / 4)) * (1 / 10 ^ 4), 0,
            1 / 2 * sqrt (- 2 * ln (1 / 4) / (1 / 4)) * (1 / 10 ^ 4), 0],
           \<lparr>return_v = False, v_val = 0\<rparr>, 4)"
  by (simp add: randnMatrix_def zeros_3_4 randn_def gaussRandom_cached randnMatrix_loop.simps
        gaussRandom_accepted [where r = "1 / 4"] alternating_rng_def)

lemma randnMatrix_alternating_2d_pending:
  "randnMatrix (Suc (Suc 0)) 2 alternating_rng \<lparr>return_v = True, v_val = 0\<rparr> 0
   = Some ([0, 1 / 2 * sqrt (- 2 * ln (1 / 4) / (1 / 4)) * (1 / 10 ^ 4), 0,
            1 / 2 * sqrt (- 2 * ln (1 / 4) / (1 / 4)) * (1 / 10 ^ 4)],
           \<lparr>return_v = True, v_val = 0\<rparr>, 4)"
  by (simp add: randnMatrix_def zeros_3_4 randn_def gaussRandom_cached randnMatrix_loop.simps
        gaussRandom_accepted [where r = "1 / 4"] alternating_rng_def)

text \<open>
  C10 as stated fails. An engine of dimension 3 with one point draws three samples and
  leaves a pending draw in the module-level cache. An engine of dimension 2 with two points
  that is initialised after it takes that draw as its first sample, and its embedding
  differs from the one the same engine gets when the cache is empty.
\<close>

theorem shared_cache_counterexample:
  "TSNE_constructor alternating_rng
     (Some \<lparr>opt_dim = 2, opt_perplexity = None, opt_epsilon = None, opt_rng = Some alternating_rng\<rparr>)
     = Inr engine_2d
   \<and> TSNE_constructor alternating_rng
     (Some \<lparr>opt_dim = 3, opt_perplexity = None, opt_epsilon = None, opt_rng = Some alternating_rng\<rparr>)
     = Inr engine_3d
   \<and> cache_after \<lparr>return_v = False, v_val = 0\<rparr> engine_3d [[]] = Some \<lparr>return_v = True, v_val = 0\<rparr>
   \<and> solution_after two_point_tree 0 \<lparr>return_v = False, v_val = 0\<rparr> engine_2d
        [[\<lparr>index = 1, dist = 1\<rparr>], [\<lparr>index = 0, dist = 1\<rparr>]]
      = Some (Inr [1 / 2 * sqrt (- 2 * ln (1 / 4) / (1 / 4)) * (1 / 10 ^ 4), 0,
                   1 / 2 * sqrt (- 2 * ln (1 / 4) / (1 / 4)) * (1 / 10 ^ 4), 0])
   \<and> solution_after two_point_tree 0 \<lparr>return_v = True, v_val = 0\<rparr> engine_2d
        [[\<lparr>index = 1, dist = 1\<rparr>], [\<lparr>index = 0, dist = 1\<rparr>]]
      = Some (Inr [0, 1 / 2 * sqrt (- 2 * ln (1 / 4) / (1 / 4)) * (1 / 10 ^ 4), 0,
                   1 / 2 * sqrt (- 2 * ln (1 / 4) / (1 / 4)) * (1 / 10 ^ 4)])
   \<and> solution_after two_point_tree 0 \<lparr>return_v = False, v_val = 0\<rparr> engine_2d
        [[\<lparr>index = 1, dist = 1\<rparr>], [\<lparr>index = 0, dist = 1\<rparr>]]
      \<noteq> solution_after two_point_tree 0 \<lparr>return_v = True, v_val = 0\<rparr> engine_2d
        [[\<lparr>index = 1, dist = 1\<rparr>], [\<lparr>index = 0, dist = 1\<rparr>]]"
proof -
  have p2: "perplexity engine_2d = 30" "perplexity engine_3d = 30"
    by (simp_all add: engine_2d_def engine_3d_def)
  have c: "TSNE_constructor alternating_rng
     (Some \<lparr>opt_dim = 2, opt_perplexity = None, opt_epsilon = None, opt_rng = Some alternating_rng\<rparr>)
     = Inr engine_2d"
    "TSNE_constructor alternating_rng
     (Some \<lparr>opt_dim = 3, opt_perplexity = None, opt_epsilon = None, opt_rng = Some alternating_rng\<rparr>)
     = Inr engine_3d"
    by (simp_all add: TSNE_constructor_def or_default_def engine_2d_def engine_3d_def)
  have i3: "initDataDist \<lparr>return_v = False, v_val = 0\<rparr> engine_3d [[]]
            = Some (Inr (\<lparr>return_v = True, v_val = 0\<rparr>,
                 engine_3d\<lparr>nearest := [[]], mat_P := [0], num_N := 1,
                   emb_Y := [1 / 2 * sqrt (- 2 * ln (1 / 4) / (1 / 4)) * (1 / 10 ^ 4), 0,
                             1 / 2 * sqrt (- 2 * ln (1 / 4) / (1 / 4)) * (1 / 10 ^ 4)],
                   rng_calls := 4, gains := [[1, 1, 1]], ystep := [[0, 0, 0]], iter := 0\<rparr>))"
    unfolding initDataDist_def p2 nearest2P_one_point
    by (simp add: initSolution_def engine_3d_def randnMatrix_alternating_3d arrayofs_small)
  have ia: "initDataDist \<lparr>return_v = False, v_val = 0\<rparr> engine_2d
              [[\<lparr>index = 1, dist = 1\<rparr>], [\<lparr>index = 0, dist = 1\<rparr>]]
            = Some (Inr (\<lparr>return_v = False, v_val = 0\<rparr>,
                 engine_2d\<lparr>nearest := [[\<lparr>index = 1, dist = 1\<rparr>], [\<lparr>index = 0, dist = 1\<rparr>]],
                   mat_P := [0, 1 / 2, 1 / 2, 0], num_N := 2,
                   emb_Y := [1 / 2 * sqrt (- 2 * ln (1 / 4) / (1 / 4)) * (1 / 10 ^ 4), 0,
                             1 / 2 * sqrt (- 2 * ln (1 / 4) / (1 / 4)) * (1 / 10 ^ 4), 0],
                   rng_calls := 4, gains := [[1, 1], [1, 1]], ystep := [[0, 0], [0, 0]], iter := 0\<rparr>))"
    unfolding initDataDist_def p2 nearest2P_two_points
    by (simp add: initSolution_def engine_2d_def randnMatrix_alternating_2d_empty arrayofs_small)
  have ib: "initDataDist \<lparr>return_v = True, v_val = 0\<rparr> engine_2d
              [[\<lparr>index = 1, dist = 1\<rparr>], [\<lparr>index = 0, dist = 1\<rparr>]]
            = Some (Inr (\<lparr>return_v = True, v_val = 0\<rparr>,
                 engine_2d\<lparr>nearest := [[\<lparr>index = 1, dist = 1\<rparr>], [\<lparr>index = 0, dist = 1\<rparr>]],
                   mat_P := [0, 1 / 2, 1 / 2, 0], num_N := 2,
                   emb_Y := [0, 1 / 2 * sqrt (- 2 * ln (1 / 4) / (1 / 4)) * (1 / 10 ^ 4), 0,
                             1 / 2 * sqrt (- 2 * ln (1 / 4) / (1 / 4)) * (1 / 10 ^ 4)],
                   rng_calls := 4, gains := [[1, 1], [1, 1]], ystep := [[0, 0], [0, 0]], iter := 0\<rparr>))"
    unfolding initDataDist_def p2 nearest2P_two_points
    by (simp add: initSolution_def engine_2d_def randnMatrix_alternating_2d_pending arrayofs_small)
  have x: "1 / 2 * sqrt (- 2 * ln (1 / 4) / (1 / 4)) * (1 / 10 ^ 4) \<noteq> (0::real)"
    by simp
  show ?thesis
    unfolding c cache_after_def solution_after_def i3 ia ib
    using x by (simp add: getSolution_def)
qed

subsection \<open>The zero-mean embedding in double precision\<close>













end
